(* ===== verification/VFRB_Prelude.thy ===== *)
theory VFRB_Prelude
  imports Complex_Main "HOL-Library.Word" "HOL-Library.Code_Target_Numeral"
begin

text \<open>
  Shared vocabulary of the development: the outcome of a C++ computation (a value, a thrown
  exception, or undefined behaviour), the exception classes the program throws and catches, the
  integer ranges of the machine types, and generic lemmas the component theories use.
\<close>

section \<open>Collections of facts\<close>

named_theorems vfrb_defs \<open>definitions a component proof unfolds by default\<close>
named_theorems vfrb_elims \<open>elimination rules for successful computations\<close>

section \<open>Exceptions and outcomes\<close>

text \<open>
  The exception classes that occur in the sources. \<open>Bad_cast\<close> comes from \<open>dynamic_cast\<close> on
  references, \<open>Bad_get\<close> from reading a variant at another type, \<open>System_error\<close> is what the network library throws, the others are classes of the
  standard library or of the program itself. Messages only reach the log and are left out.
\<close>

datatype exn =
    Invalid_argument
  | Out_of_range
  | Logic_error
  | Runtime_error
  | Bad_cast
  | Bad_get
  | System_error
  | SocketException
  | PositionAlreadyLocked
  | ReceivedGoodPosition
  | Thrown_int

text \<open>\<open>catch (const std::logic_error&)\<close> catches the class and its subclasses.\<close>

fun is_logic_error :: "exn \<Rightarrow> bool" where
  "is_logic_error Invalid_argument = True"
| "is_logic_error Out_of_range = True"
| "is_logic_error Logic_error = True"
| "is_logic_error _ = False"

text \<open>\<open>catch (const std::exception&)\<close> catches everything but a thrown integer.\<close>

fun is_std_exception :: "exn \<Rightarrow> bool" where
  "is_std_exception Thrown_int = False"
| "is_std_exception _ = True"

text \<open>
  A computation returns, throws, or runs into undefined behaviour (\<open>UB\<close>): the standard gives the
  program no meaning from there on, so no handler catches it.
\<close>

datatype 'a outcome = Ret 'a | Throw exn | UB

primrec obind :: "'a outcome \<Rightarrow> ('a \<Rightarrow> 'b outcome) \<Rightarrow> 'b outcome" where
  "obind (Ret x) f = f x"
| "obind (Throw e) f = Throw e"
| "obind UB f = UB"

definition omap :: "('a \<Rightarrow> 'b) \<Rightarrow> 'a outcome \<Rightarrow> 'b outcome" where
  "omap f r = obind r (\<lambda>x. Ret (f x))"

text \<open>\<open>try { r } catch (E) { h }\<close>, with the set of caught classes as a predicate.\<close>

primrec ocatch :: "(exn \<Rightarrow> bool) \<Rightarrow> 'a outcome \<Rightarrow> 'a outcome \<Rightarrow> 'a outcome" where
  "ocatch p (Ret x) h = Ret x"
| "ocatch p (Throw e) h = (if p e then h else Throw e)"
| "ocatch p UB h = UB"

lemma obind_assoc: "obind (obind r f) g = obind r (\<lambda>x. obind (f x) g)"
  by (cases r) simp_all

lemma obind_Ret [simp]: "obind r Ret = r"
  by (cases r) simp_all

lemma obind_eq_Ret_conv: "obind r f = Ret y \<longleftrightarrow> (\<exists>x. r = Ret x \<and> f x = Ret y)"
  by (cases r) auto

lemma obind_eq_UB_conv: "obind r f = UB \<longleftrightarrow> r = UB \<or> (\<exists>x. r = Ret x \<and> f x = UB)"
  by (cases r) auto

lemma obind_eq_Throw_conv:
  "obind r f = Throw e \<longleftrightarrow> r = Throw e \<or> (\<exists>x. r = Ret x \<and> f x = Throw e)"
  by (cases r) auto

lemma obind_RetE [vfrb_elims]:
  assumes "obind r f = Ret y"
  obtains x where "r = Ret x" "f x = Ret y"
  using assms by (auto simp: obind_eq_Ret_conv)

lemma omap_simps [simp]:
  "omap f (Ret x) = Ret (f x)" "omap f (Throw e) = Throw e" "omap f UB = UB"
  by (simp_all add: omap_def)

lemma omap_eq_Ret_conv: "omap f r = Ret y \<longleftrightarrow> (\<exists>x. r = Ret x \<and> y = f x)"
  by (cases r) auto

lemma ocatch_eq_Ret_conv:
  "ocatch p r h = Ret y \<longleftrightarrow> r = Ret y \<or> (\<exists>e. r = Throw e \<and> p e \<and> h = Ret y)"
  by (cases r) auto

section \<open>Machine integers\<close>

text \<open>
  Unsigned integers are words. A signed 32-bit integer is an \<open>int\<close>; every operation whose result
  may leave the range goes through \<open>i32\<close>, since signed overflow is undefined behaviour.
\<close>

type_synonym uint8 = "8 word"
type_synonym uint16 = "16 word"
type_synonym uint32 = "32 word"
type_synonym uint64 = "64 word"

definition INT32_MAX :: int where "INT32_MAX = 2147483647"
definition INT32_MIN :: int where "INT32_MIN = - 2147483648"

definition in_i32 :: "int \<Rightarrow> bool" where
  "in_i32 x \<longleftrightarrow> INT32_MIN \<le> x \<and> x \<le> INT32_MAX"

definition i32 :: "int \<Rightarrow> int outcome" where
  "i32 x = (if in_i32 x then Ret x else UB)"

lemma i32_eq_Ret [simp]: "i32 x = Ret y \<longleftrightarrow> y = x \<and> in_i32 x"
  by (auto simp: i32_def)

lemma in_i32_iff: "in_i32 x \<longleftrightarrow> - 2147483648 \<le> x \<and> x \<le> 2147483647"
  by (simp add: in_i32_def INT32_MIN_def INT32_MAX_def)

section \<open>Lists\<close>

lemma nth_remove_nth:
  assumes "i < length xs" "j < length xs - 1"
  shows "(take i xs @ drop (Suc i) xs) ! j = (if j < i then xs ! j else xs ! Suc j)"
  using assms by (auto simp: nth_append min_def)

lemma distinct_map_nth_eq:
  assumes "distinct (map f xs)" "i < length xs" "j < length xs" "f (xs ! i) = f (xs ! j)"
  shows "i = j"
  using assms nth_eq_iff_index_eq [of "map f xs" i j] by simp

text \<open>The map from the elements of a list to their positions.\<close>

definition index_of :: "'a list \<Rightarrow> 'a \<rightharpoonup> nat" where
  "index_of ks = map_of (zip ks [0..<length ks])"

lemma index_of_Nil [simp]: "index_of [] = Map.empty"
  by (simp add: index_of_def)

lemma dom_index_of [simp]: "dom (index_of ks) = set ks"
  by (simp add: index_of_def)

lemma index_of_nth: "distinct ks \<Longrightarrow> i < length ks \<Longrightarrow> index_of ks (ks ! i) = Some i"
  using map_of_zip_nth [of ks "[0..<length ks]" i] by (simp add: index_of_def)

lemma index_of_None_iff: "index_of ks k = None \<longleftrightarrow> k \<notin> set ks"
  by (simp add: index_of_def map_of_zip_is_None)

lemma index_of_SomeD: "index_of ks k = Some i \<Longrightarrow> i < length ks \<and> ks ! i = k"
  by (auto simp: index_of_def set_zip dest!: map_of_SomeD)

lemma index_of_unique:
  assumes "distinct ks" "dom m = set ks" "\<And>i. i < length ks \<Longrightarrow> m (ks ! i) = Some i"
  shows "m = index_of ks"
proof
  fix k
  show "m k = index_of ks k"
  proof (cases "k \<in> set ks")
    case True
    then obtain i where "i < length ks" "k = ks ! i" by (auto simp: in_set_conv_nth)
    then show ?thesis using assms by (simp add: index_of_nth)
  next
    case False
    then have "m k = None" using assms(2) by blast
    then show ?thesis using False by (metis index_of_None_iff)
  qed
qed

lemma index_of_snoc:
  assumes "distinct (ks @ [k])"
  shows "index_of (ks @ [k]) = (index_of ks)(k \<mapsto> length ks)"
proof (rule index_of_unique [OF assms, symmetric])
  fix i assume "i < length (ks @ [k])"
  then show "((index_of ks)(k \<mapsto> length ks)) ((ks @ [k]) ! i) = Some i"
    using assms index_of_nth [of ks i] by (auto simp: nth_append less_Suc_eq)
qed simp

lemma find_index_of:
  assumes "distinct (map f xs)"
  shows "map_option (\<lambda>i. xs ! i) (index_of (map f xs) k) = find (\<lambda>x. f x = k) xs"
proof (cases "k \<in> f ` set xs")
  case True
  then obtain i where i: "i < length xs" "f (xs ! i) = k" by (auto simp: in_set_conv_nth)
  then have "index_of (map f xs) k = Some i"
    using index_of_nth [OF assms, of i] by simp
  moreover have "f (xs ! j) \<noteq> k" if "j < i" for j
    using that i distinct_map_nth_eq [OF assms, of j i] by auto
  then have "find (\<lambda>x. f x = k) xs = Some (xs ! i)"
    unfolding find_Some_iff using i by blast
  ultimately show ?thesis by simp
next
  case False
  then have "index_of (map f xs) k = None" by (simp add: index_of_None_iff)
  moreover have "find (\<lambda>x. f x = k) xs = None" using False by (auto simp: find_None_iff)
  ultimately show ?thesis by simp
qed

lemma find_append: "find P (xs @ ys) = (case find P xs of None \<Rightarrow> find P ys | Some x \<Rightarrow> Some x)"
  by (induction xs) simp_all

lemma find_list_all2:
  assumes "list_all2 R xs ys" "\<And>x y. R x y \<Longrightarrow> P x = P y"
  shows "rel_option R (find P xs) (find P ys)"
  using assms by (induction rule: list_all2_induct) auto

section \<open>Transition systems\<close>

text \<open>
  State machines of the program: initial states and steps. A property that holds initially and is
  kept by every step holds in all reachable states.
\<close>

locale transition_system =
  fixes init :: "'s \<Rightarrow> bool"
    and step :: "'s \<Rightarrow> 's \<Rightarrow> bool"
begin

inductive reach :: "'s \<Rightarrow> bool" where
  start: "init s \<Longrightarrow> reach s"
| next_state: "reach s \<Longrightarrow> step s t \<Longrightarrow> reach t"

lemma invariant:
  assumes "reach s" "\<And>s. init s \<Longrightarrow> P s" "\<And>s t. reach s \<Longrightarrow> P s \<Longrightarrow> step s t \<Longrightarrow> P t"
  shows "P s"
  using assms(1) by (induction rule: reach.induct) (auto intro: assms(2, 3))

lemma reach_run:
  assumes "step\<^sup>*\<^sup>* s t" "reach s"
  shows "reach t"
  using assms by (induction rule: rtranclp_induct) (auto intro: next_state)

end

text \<open>
  A detailed machine refines a coarser one if every step of it is, seen through the abstraction, a run of
  the coarser one. Runs then are runs, and what all reachable states of the coarser machine satisfy, the
  detailed one satisfies.
\<close>

locale refined_system = coarse: transition_system ainit astep
  for ainit :: "'a \<Rightarrow> bool" and astep :: "'a \<Rightarrow> 'a \<Rightarrow> bool" +
  fixes cinit :: "'c \<Rightarrow> bool" and cstep :: "'c \<Rightarrow> 'c \<Rightarrow> bool" and abs :: "'c \<Rightarrow> 'a"
  assumes init_refines: "cinit s \<Longrightarrow> ainit (abs s)"
    and step_refines: "cstep s t \<Longrightarrow> astep\<^sup>*\<^sup>* (abs s) (abs t)"
begin

lemma run_refines:
  assumes "cstep\<^sup>*\<^sup>* s t"
  shows "astep\<^sup>*\<^sup>* (abs s) (abs t)"
  using assms by (induction rule: rtranclp_induct) (auto dest: step_refines)

lemma reach_refines:
  assumes "cinit s" "cstep\<^sup>*\<^sup>* s t"
  shows "coarse.reach (abs t)"
  by (rule coarse.reach_run [OF run_refines [OF assms(2)]]) (rule coarse.reach.start [OF init_refines [OF assms(1)]])

end

end
