(* ===== verification/Cpp_Double.thy ===== *)
theory Cpp_Double
  imports VFRB_Prelude
begin

text \<open>
  The type \<open>double\<close> of the sources: IEEE 754 binary64 with round-to-nearest-even. A finite value
  is a sign and a magnitude, so that \<open>-0.0\<close> and \<open>0.0\<close> differ as they do in the machine; the
  magnitudes of values the operations produce are binary64 numbers, because every operation rounds
  its exact result with \<open>fl64\<close>. Everything but the transcendental functions evaluates in the
  kernel.
\<close>

section \<open>Rounding to binary64\<close>

definition ilog2 :: "real \<Rightarrow> int" where
  "ilog2 m = (if m \<le> 0 then 0 else \<lfloor>log 2 m\<rfloor>)"

text \<open>Round to the nearest integer, ties to even.\<close>

definition rne :: "real \<Rightarrow> int" where
  "rne x = (let f = \<lfloor>x\<rfloor>; d = x - of_int f in
     if d < 1/2 \<or> (d = 1/2 \<and> even f) then f else f + 1)"

text \<open>The exponent of the unit in the last place of a magnitude, with gradual underflow.\<close>

definition ulp_exp :: "real \<Rightarrow> int" where
  "ulp_exp m = max (ilog2 m - 52) (- 1074)"

definition fl64 :: "real \<Rightarrow> real" where
  "fl64 m = of_int (rne (m / 2 powi ulp_exp m)) * 2 powi ulp_exp m"

lemma ilog2_code [code]:
  "ilog2 m = (if m \<le> 0 then 0 else if m < 1 then ilog2 (2 * m) - 1
              else if m < 2 then 0 else ilog2 (m / 2) + 1)"
proof -
  consider "m \<le> 0" | "0 < m" "m < 1" | "1 \<le> m" "m < 2" | "2 \<le> m" by linarith
  then show ?thesis
  proof cases
    case 2
    then have "log 2 (2 * m) = log 2 m + 1" by (simp add: log_mult)
    with 2 show ?thesis by (simp add: ilog2_def)
  next
    case 3
    then have "0 \<le> log 2 m" "log 2 m < 1" by (simp_all add: log_less_iff)
    then have "\<lfloor>log 2 m\<rfloor> = 0" by linarith
    with 3 show ?thesis by (simp add: ilog2_def)
  next
    case 4
    then have "log 2 (m / 2) = log 2 m - 1" by (simp add: log_divide)
    with 4 show ?thesis by (simp add: ilog2_def)
  qed (simp add: ilog2_def)
qed

section \<open>Values and operations\<close>

datatype double = Fin bool real | Inf bool | NaN

definition sgnd :: "bool \<Rightarrow> real \<Rightarrow> real" where
  "sgnd s m = (if s then - m else m)"

fun dval :: "double \<Rightarrow> real" where
  "dval (Fin s m) = sgnd s m"
| "dval _ = 0"

definition DBL_MAX :: real where
  "DBL_MAX = (2 ^ 53 - 1) * 2 ^ 971"

text \<open>
  Round an exact result \<open>v\<close>; \<open>z\<close> is the sign of an exact zero. A result beyond the largest
  finite number becomes an infinity.
\<close>

definition fin_round :: "bool \<Rightarrow> real \<Rightarrow> double" where
  "fin_round z v =
     (let s = (if v = 0 then z else v < 0); r = fl64 \<bar>v\<bar>
      in if DBL_MAX < r then Inf s else Fin s r)"

text \<open>A floating-point literal of the source.\<close>

definition dlit :: "real \<Rightarrow> double" where
  "dlit v = fin_round False v"

text \<open>Conversion of a 32-bit integer, which is exact.\<close>

definition d_of_int :: "int \<Rightarrow> double" where
  "d_of_int i = Fin (i < 0) (of_int \<bar>i\<bar>)"

fun d_neg :: "double \<Rightarrow> double" where
  "d_neg (Fin s m) = Fin (\<not> s) m"
| "d_neg (Inf s) = Inf (\<not> s)"
| "d_neg NaN = NaN"

fun d_abs :: "double \<Rightarrow> double" where
  "d_abs (Fin s m) = Fin False m"
| "d_abs (Inf s) = Inf False"
| "d_abs NaN = NaN"

fun d_add :: "double \<Rightarrow> double \<Rightarrow> double" where
  "d_add (Fin s a) (Fin t b) = fin_round (s \<and> t) (sgnd s a + sgnd t b)"
| "d_add NaN y = NaN"
| "d_add x NaN = NaN"
| "d_add (Inf s) (Inf t) = (if s = t then Inf s else NaN)"
| "d_add (Inf s) y = Inf s"
| "d_add x (Inf t) = Inf t"

definition d_sub :: "double \<Rightarrow> double \<Rightarrow> double" where
  "d_sub x y = d_add x (d_neg y)"

fun d_mul :: "double \<Rightarrow> double \<Rightarrow> double" where
  "d_mul (Fin s a) (Fin t b) = fin_round (s \<noteq> t) (sgnd s a * sgnd t b)"
| "d_mul NaN y = NaN"
| "d_mul x NaN = NaN"
| "d_mul (Inf s) (Inf t) = Inf (s \<noteq> t)"
| "d_mul (Inf s) (Fin t b) = (if b = 0 then NaN else Inf (s \<noteq> t))"
| "d_mul (Fin s a) (Inf t) = (if a = 0 then NaN else Inf (s \<noteq> t))"

fun d_div :: "double \<Rightarrow> double \<Rightarrow> double" where
  "d_div (Fin s a) (Fin t b) =
     (if b = 0 then (if a = 0 then NaN else Inf (s \<noteq> t))
      else fin_round (s \<noteq> t) (sgnd s a / sgnd t b))"
| "d_div NaN y = NaN"
| "d_div x NaN = NaN"
| "d_div (Inf s) (Inf t) = NaN"
| "d_div (Inf s) (Fin t b) = Inf (s \<noteq> t)"
| "d_div (Fin s a) (Inf t) = Fin (s \<noteq> t) 0"

text \<open>Comparisons: false whenever an operand is NaN.\<close>

fun d_less :: "double \<Rightarrow> double \<Rightarrow> bool" where
  "d_less NaN y = False"
| "d_less x NaN = False"
| "d_less (Inf s) (Inf t) = (s \<and> \<not> t)"
| "d_less (Inf s) (Fin t b) = s"
| "d_less (Fin s a) (Inf t) = (\<not> t)"
| "d_less (Fin s a) (Fin t b) = (sgnd s a < sgnd t b)"

fun d_eq :: "double \<Rightarrow> double \<Rightarrow> bool" where
  "d_eq (Fin s a) (Fin t b) = (sgnd s a = sgnd t b)"
| "d_eq (Inf s) (Inf t) = (s = t)"
| "d_eq x y = False"

definition d_le :: "double \<Rightarrow> double \<Rightarrow> bool" where
  "d_le x y \<longleftrightarrow> d_less x y \<or> d_eq x y"

fun d_floor :: "double \<Rightarrow> double" where
  "d_floor (Fin s m) = (let v = \<lfloor>sgnd s m\<rfloor> in Fin (if v = 0 then s else v < 0) (of_int \<bar>v\<bar>))"
| "d_floor x = x"

text \<open>\<open>std::fmod\<close>: the exact remainder of the truncated quotient, with the sign of the dividend.\<close>

fun d_fmod :: "double \<Rightarrow> double \<Rightarrow> double" where
  "d_fmod (Fin s a) (Fin t b) = (if b = 0 then NaN else Fin s (a - b * of_int \<lfloor>a / b\<rfloor>))"
| "d_fmod (Fin s a) (Inf t) = Fin s a"
| "d_fmod x y = NaN"

text \<open>
  \<open>static_cast<std::int32_t>\<close> of a floating-point value truncates; the behaviour is undefined when
  the truncated value is not representable.
\<close>

fun d_to_i32 :: "double \<Rightarrow> int outcome" where
  "d_to_i32 (Fin s m) = i32 (if s then - \<lfloor>m\<rfloor> else \<lfloor>m\<rfloor>)"
| "d_to_i32 _ = UB"

section \<open>Elementary functions\<close>

text \<open>
  The C library's elementary functions, modelled as correctly rounded; the special values are
  those of the C standard's Annex F.
\<close>

fun d_sqrt :: "double \<Rightarrow> double" where
  "d_sqrt (Fin s m) = (if m = 0 then Fin s 0 else if s then NaN else fin_round False (sqrt m))"
| "d_sqrt (Inf s) = (if s then NaN else Inf False)"
| "d_sqrt NaN = NaN"

fun d_sin :: "double \<Rightarrow> double" where
  "d_sin (Fin s m) = fin_round s (sin (sgnd s m))"
| "d_sin _ = NaN"

fun d_cos :: "double \<Rightarrow> double" where
  "d_cos (Fin s m) = fin_round False (cos (sgnd s m))"
| "d_cos _ = NaN"

text \<open>The angle in \<open>[0, pi]\<close> of the point with abscissa \<open>sgnd t x\<close> and ordinate \<open>y \<ge> 0\<close>.\<close>

definition half_angle :: "real \<Rightarrow> bool \<Rightarrow> real \<Rightarrow> real" where
  "half_angle y t x =
     (if y = 0 then (if t then pi else 0)
      else if x = 0 then pi / 2
      else if t then pi - arctan (y / x) else arctan (y / x))"

fun d_atan2 :: "double \<Rightarrow> double \<Rightarrow> double" where
  "d_atan2 (Fin s y) (Fin t x) = fin_round s (sgnd s (half_angle y t x))"
| "d_atan2 NaN x = NaN"
| "d_atan2 y NaN = NaN"
| "d_atan2 (Inf s) (Inf t) = fin_round s (sgnd s (if t then 3 * pi / 4 else pi / 4))"
| "d_atan2 (Inf s) (Fin t x) = fin_round s (sgnd s (pi / 2))"
| "d_atan2 (Fin s y) (Inf t) = fin_round s (sgnd s (if t then pi else 0))"

definition is_odd_int :: "real \<Rightarrow> bool" where
  "is_odd_int y \<longleftrightarrow> of_int \<lfloor>y\<rfloor> = y \<and> odd \<lfloor>y\<rfloor>"

text \<open>\<open>std::pow\<close> on finite arguments with a nonzero exponent.\<close>

definition pow_fin :: "bool \<Rightarrow> real \<Rightarrow> real \<Rightarrow> double" where
  "pow_fin s m y =
     (let neg = (s \<and> is_odd_int y) in
      if m = 0 then (if y < 0 then Inf neg else Fin neg 0)
      else if of_int \<lfloor>y\<rfloor> = y then fin_round False (sgnd s m powi \<lfloor>y\<rfloor>)
      else if s then NaN
      else fin_round False (m powr y))"

fun d_pow :: "double \<Rightarrow> double \<Rightarrow> double" where
  "d_pow (Fin s m) (Fin t y) =
     (if y = 0 \<or> (\<not> s \<and> m = 1) then Fin False 1 else pow_fin s m (sgnd t y))"
| "d_pow (Fin s m) (Inf t) =
     (if m = 1 then Fin False 1 else if (m < 1) = t then Inf False else Fin False 0)"
| "d_pow (Fin s m) NaN = (if \<not> s \<and> m = 1 then Fin False 1 else NaN)"
| "d_pow (Inf s) (Fin t y) =
     (if y = 0 then Fin False 1
      else let neg = (s \<and> is_odd_int (sgnd t y)) in if t then Fin neg 0 else Inf neg)"
| "d_pow (Inf s) (Inf t) = (if t then Fin False 0 else Inf False)"
| "d_pow (Inf s) NaN = NaN"
| "d_pow NaN (Fin t y) = (if y = 0 then Fin False 1 else NaN)"
| "d_pow NaN y = NaN"

section \<open>Properties of the rounding\<close>

lemma powi_split: "(2::real) powi (a + b) = 2 powi a * 2 powi b"
  by (simp add: power_int_add)

lemma powi_le: "a \<le> b \<Longrightarrow> (2::real) powi a \<le> 2 powi b"
  by (simp add: power_int_increasing)

lemma ilog2_bounds:
  assumes "0 < m"
  shows "2 powi ilog2 m \<le> m" "m < 2 powi (ilog2 m + 1)"
proof -
  have "(2::real) powr of_int (ilog2 m) \<le> m"
    using assms by (simp add: ilog2_def flip: le_log_iff)
  then show "2 powi ilog2 m \<le> m" by (simp add: powr_real_of_int')
  have "m < (2::real) powr of_int (ilog2 m + 1)"
    using assms by (simp add: ilog2_def flip: log_less_iff)
  then show "m < 2 powi (ilog2 m + 1)" by (simp add: powr_real_of_int' del: of_int_add)
qed

lemma ilog2_lessI:
  assumes "0 < m" "m < 2 powi e"
  shows "ilog2 m < e"
proof (rule ccontr)
  assume "\<not> ilog2 m < e"
  then have "(2::real) powi e \<le> 2 powi ilog2 m" by (intro powi_le) simp
  with ilog2_bounds(1) [OF assms(1)] assms(2) show False by simp
qed

lemma ilog2_mono:
  assumes "0 < m" "m \<le> n"
  shows "ilog2 m \<le> ilog2 n"
  using ilog2_lessI [of m "ilog2 n + 1"] ilog2_bounds(2) [of n] assms by simp

lemma rne_close: "\<bar>of_int (rne x) - x\<bar> \<le> 1/2"
  unfolding rne_def Let_def by (cases "x - of_int \<lfloor>x\<rfloor> < 1/2") (auto; linarith)+

lemma rne_of_int [simp]: "rne (of_int n) = n"
  by (simp add: rne_def)

lemma rne_mono:
  assumes "x \<le> y"
  shows "rne x \<le> rne y"
proof (cases "\<lfloor>x\<rfloor> = \<lfloor>y\<rfloor>")
  case True
  then show ?thesis using assms by (auto simp: rne_def Let_def)
next
  case False
  then have "\<lfloor>x\<rfloor> + 1 \<le> \<lfloor>y\<rfloor>" using floor_mono [OF assms] by linarith
  moreover have "rne x \<le> \<lfloor>x\<rfloor> + 1" "\<lfloor>y\<rfloor> \<le> rne y" by (auto simp: rne_def Let_def)
  ultimately show ?thesis by linarith
qed

lemma rne_ge_int: "of_int n \<le> x \<Longrightarrow> n \<le> rne x"
  using rne_mono [of "of_int n" x] by simp

lemma rne_le_int: "x \<le> of_int n \<Longrightarrow> rne x \<le> n"
  using rne_mono [of x "of_int n"] by simp

lemma fl64_0 [simp]: "fl64 0 = 0"
  using rne_of_int [of 0] by (simp add: fl64_def)

lemma fl64_nonneg: "0 \<le> m \<Longrightarrow> 0 \<le> fl64 m"
  using rne_ge_int [of 0 "m / 2 powi ulp_exp m"] by (simp add: fl64_def)

lemma fl64_error: "\<bar>fl64 m - m\<bar> \<le> 2 powi ulp_exp m / 2"
proof -
  let ?u = "2 powi ulp_exp m :: real"
  have "fl64 m - m = (of_int (rne (m / ?u)) - m / ?u) * ?u"
    by (simp add: fl64_def left_diff_distrib)
  then have "\<bar>fl64 m - m\<bar> = \<bar>of_int (rne (m / ?u)) - m / ?u\<bar> * ?u"
    by (simp add: abs_mult)
  also have "\<dots> \<le> 1/2 * ?u" by (intro mult_right_mono rne_close) simp
  finally show ?thesis by simp
qed

lemma fl64_le_binade:
  assumes "0 < m"
  shows "fl64 m \<le> 2 powi (53 + ulp_exp m)"
proof -
  have "m < 2 powi (ilog2 m + 1)" by (rule ilog2_bounds(2) [OF assms])
  also have "\<dots> \<le> 2 powi (53 + ulp_exp m)" by (intro powi_le) (simp add: ulp_exp_def)
  also have "\<dots> = 2 ^ 53 * 2 powi ulp_exp m" by (subst powi_split) simp
  finally have "m / 2 powi ulp_exp m \<le> of_int (2 ^ 53)" by (simp add: divide_le_eq)
  then have "rne (m / 2 powi ulp_exp m) \<le> 2 ^ 53" by (rule rne_le_int)
  then have "real_of_int (rne (m / 2 powi ulp_exp m)) \<le> 2 ^ 53"
    by (metis of_int_le_iff of_int_numeral of_int_power)
  then show ?thesis by (subst powi_split) (simp add: fl64_def)
qed

lemma fl64_ge_binade:
  assumes "0 < m" "- 1074 < ulp_exp m"
  shows "2 powi (52 + ulp_exp m) \<le> fl64 m"
proof -
  have e: "52 + ulp_exp m = ilog2 m" using assms(2) by (auto simp: ulp_exp_def)
  have "2 powi (52 + ulp_exp m) \<le> m" unfolding e by (rule ilog2_bounds(1) [OF assms(1)])
  then have "of_int (2 ^ 52) \<le> m / 2 powi ulp_exp m"
    by (simp add: powi_split le_divide_eq)
  then have "2 ^ 52 \<le> rne (m / 2 powi ulp_exp m)" by (rule rne_ge_int)
  then have "2 ^ 52 \<le> real_of_int (rne (m / 2 powi ulp_exp m))"
    by (metis of_int_le_iff of_int_numeral of_int_power)
  then show ?thesis by (subst powi_split) (simp add: fl64_def)
qed

lemma fl64_mono:
  assumes "0 \<le> m" "m \<le> n"
  shows "fl64 m \<le> fl64 n"
proof (cases "m = 0")
  case True
  then show ?thesis using assms by (simp add: fl64_nonneg)
next
  case False
  then have pos: "0 < m" "0 < n" using assms by simp_all
  have le: "ulp_exp m \<le> ulp_exp n"
    using ilog2_mono [OF pos(1) assms(2)] by (simp add: ulp_exp_def)
  show ?thesis
  proof (cases "ulp_exp m = ulp_exp n")
    case True
    have "rne (m / 2 powi ulp_exp n) \<le> rne (n / 2 powi ulp_exp n)"
      using assms by (intro rne_mono divide_right_mono) simp_all
    then show ?thesis by (simp add: fl64_def True)
  next
    case False
    have "fl64 m \<le> 2 powi (53 + ulp_exp m)" by (rule fl64_le_binade [OF pos(1)])
    also have "\<dots> \<le> 2 powi (52 + ulp_exp n)" using False le by (intro powi_le) simp
    also have "\<dots> \<le> fl64 n"
      using False le by (intro fl64_ge_binade pos(2)) (simp add: ulp_exp_def)
    finally show ?thesis .
  qed
qed

lemma fl64_exact_aux:
  assumes "k < 2 ^ 53" "- 1074 \<le> e"
  shows "fl64 (of_nat k * 2 powi e) = of_nat k * 2 powi e"
proof (cases "k = 0")
  case False
  define m where "m = real k * 2 powi e"
  have pos: "0 < m" using False by (simp add: m_def)
  have "real k < 2 ^ 53" using assms(1) by (metis of_nat_less_iff of_nat_numeral of_nat_power)
  then have "m < 2 powi (53 + e)" by (subst powi_split) (simp add: m_def)
  then have "ulp_exp m \<le> e"
    using ilog2_lessI [OF pos, of "53 + e"] assms(2) by (simp add: ulp_exp_def)
  then obtain d where d: "e = int d + ulp_exp m" by (metis zle_iff_zadd add.commute)
  have "(2::real) powi e = 2 ^ d * 2 powi ulp_exp m" by (subst d) (simp add: powi_split)
  then have m: "m = of_int (int k * 2 ^ d) * 2 powi ulp_exp m"
    using m_def by simp
  then have "m / 2 powi ulp_exp m = of_int (int k * 2 ^ d)" by (simp add: divide_eq_eq)
  then have "fl64 m = of_int (int k * 2 ^ d) * 2 powi ulp_exp m"
    unfolding fl64_def by (metis rne_of_int)
  then have "fl64 m = m" using m by metis
  then show ?thesis by (simp add: m_def)
qed simp

lemma fl64_exact:
  assumes "k \<le> 2 ^ 53" "- 1074 \<le> e"
  shows "fl64 (of_nat k * 2 powi e) = of_nat k * 2 powi e"
proof (cases "k = 2 ^ 53")
  case True
  have "fl64 (of_nat (2 ^ 52) * 2 powi (1 + e)) = of_nat (2 ^ 52) * 2 powi (1 + e)"
    using assms(2) by (intro fl64_exact_aux) simp_all
  then show ?thesis unfolding True by (simp add: powi_split)
qed (use assms in \<open>simp add: fl64_exact_aux\<close>)

lemma fl64_of_nat: "k \<le> 2 ^ 53 \<Longrightarrow> fl64 (of_nat k) = of_nat k"
  using fl64_exact [of k 0] by simp

lemma fl64_of_int: "0 \<le> i \<Longrightarrow> i \<le> 2 ^ 53 \<Longrightarrow> fl64 (of_int i) = of_int i"
  using fl64_of_nat [of "nat i"] by (simp add: nat_le_iff)

lemma fl64_numeral [simp]: "(numeral k :: nat) \<le> 2 ^ 53 \<Longrightarrow> fl64 (numeral k) = numeral k"
  using fl64_of_nat [of "numeral k"] by simp

lemma fl64_1 [simp]: "fl64 1 = 1"
  using fl64_of_nat [of 1] by simp

text \<open>Rounding keeps a value on its side of an integer, which gives range arguments.\<close>

lemma fl64_le_int: "0 \<le> m \<Longrightarrow> m \<le> of_nat n \<Longrightarrow> n \<le> 2 ^ 53 \<Longrightarrow> fl64 m \<le> of_nat n"
  using fl64_mono [of m "of_nat n"] by (simp add: fl64_of_nat)

lemma fl64_ge_int: "of_nat n \<le> m \<Longrightarrow> n \<le> 2 ^ 53 \<Longrightarrow> of_nat n \<le> fl64 m"
  using fl64_mono [of "of_nat n" m] by (simp add: fl64_of_nat)

lemma DBL_MAX_ge: "2 ^ 53 < DBL_MAX"
  by (simp add: DBL_MAX_def)

lemma fin_round_small:
  assumes "\<bar>v\<bar> \<le> 2 ^ 53"
  shows "fin_round z v = Fin (if v = 0 then z else v < 0) (fl64 \<bar>v\<bar>)"
proof -
  have "fl64 \<bar>v\<bar> \<le> of_nat (2 ^ 53)" using assms by (intro fl64_le_int) simp_all
  then show ?thesis using DBL_MAX_ge by (simp add: fin_round_def)
qed

text \<open>A code equation that avoids the comparison with the largest finite number on small values.\<close>

lemma fin_round_code [code]:
  "fin_round z v =
     (let s = (if v = 0 then z else v < 0); r = fl64 \<bar>v\<bar>
      in if \<bar>v\<bar> \<le> 9007199254740992 then Fin s r
         else if DBL_MAX < r then Inf s else Fin s r)"
  using fin_round_small [of v z] by (simp add: fin_round_def Let_def)

text \<open>
  The transcendental functions have no executable equations; evaluation leaves them alone.
\<close>

declare pi_def [code del] sin_def [code del] cos_def [code del] arctan_def [code del]
  ln_real_def [code del] powr_real_def [code del] root_def [code del]

end
