(* ===== verification/Cpp_String.thy ===== *)
theory Cpp_String
  imports Cpp_Double
begin

text \<open>
  What the sources use of \<open>std::string\<close>, of the number conversions \<open>std::stoi\<close>,
  \<open>std::stoul\<close> and \<open>std::stod\<close>, and of \<open>std::snprintf\<close>. A string is a list of
  bytes; positions are 64-bit and wrap around as \<open>std::size_t\<close> does.
\<close>

section \<open>Positions and searching\<close>

definition npos :: nat where "npos = 2 ^ 64 - 1"

definition sz_add :: "nat \<Rightarrow> nat \<Rightarrow> nat" where
  "sz_add a b = (a + b) mod 2 ^ 64"

definition sz_sub :: "nat \<Rightarrow> nat \<Rightarrow> nat" where
  "sz_sub a b = (a + 2 ^ 64 - b) mod 2 ^ 64"

fun index_where :: "('a \<Rightarrow> bool) \<Rightarrow> 'a list \<Rightarrow> nat option" where
  "index_where p [] = None"
| "index_where p (x # xs) = (if p x then Some 0 else map_option Suc (index_where p xs))"

definition str_find :: "string \<Rightarrow> char \<Rightarrow> nat \<Rightarrow> nat" where
  "str_find s c pos =
     (case index_where ((=) c) (drop pos s) of None \<Rightarrow> npos | Some i \<Rightarrow> pos + i)"

definition str_rfind :: "string \<Rightarrow> char \<Rightarrow> nat" where
  "str_rfind s c =
     (case index_where ((=) c) (rev s) of None \<Rightarrow> npos | Some i \<Rightarrow> length s - 1 - i)"

fun starts_with :: "string \<Rightarrow> string \<Rightarrow> bool" where
  "starts_with s [] = True"
| "starts_with [] (p # ps) = False"
| "starts_with (x # s) (p # ps) = (x = p \<and> starts_with s ps)"

text \<open>\<open>s.find(pat) != std::string::npos\<close>.\<close>

fun str_contains :: "string \<Rightarrow> string \<Rightarrow> bool" where
  "str_contains [] pat = (pat = [])"
| "str_contains (x # s) pat = (starts_with (x # s) pat \<or> str_contains s pat)"

definition find_first_not_of :: "string \<Rightarrow> char \<Rightarrow> nat" where
  "find_first_not_of s c =
     (case index_where ((\<noteq>) c) s of None \<Rightarrow> npos | Some i \<Rightarrow> i)"

definition find_last_not_of :: "string \<Rightarrow> char \<Rightarrow> nat" where
  "find_last_not_of s c =
     (case index_where ((\<noteq>) c) (rev s) of None \<Rightarrow> npos | Some i \<Rightarrow> length s - 1 - i)"

definition str_substr :: "string \<Rightarrow> nat \<Rightarrow> nat \<Rightarrow> string outcome" where
  "str_substr s pos n = (if length s < pos then Throw Out_of_range else Ret (take n (drop pos s)))"

text \<open>The bytes a C string function sees: everything before the first NUL.\<close>

definition c_str :: "string \<Rightarrow> string" where
  "c_str s = takeWhile (\<lambda>c. c \<noteq> CHR 0x00) s"

section \<open>Reading integers\<close>

definition is_space :: "char \<Rightarrow> bool" where
  "is_space c \<longleftrightarrow> c \<in> {CHR '' '', CHR 0x09, CHR 0x0A, CHR 0x0B, CHR 0x0C, CHR 0x0D}"

definition digit_val :: "char \<Rightarrow> nat" where
  "digit_val c =
     (let n = of_char c :: nat in
      if 48 \<le> n \<and> n \<le> 57 then n - 48
      else if 65 \<le> n \<and> n \<le> 90 then n - 55
      else if 97 \<le> n \<and> n \<le> 122 then n - 87
      else 99)"

definition is_digit :: "nat \<Rightarrow> char \<Rightarrow> bool" where
  "is_digit base c \<longleftrightarrow> digit_val c < base"

definition num_of :: "nat \<Rightarrow> string \<Rightarrow> nat" where
  "num_of base ds = foldl (\<lambda>a c. a * base + digit_val c) 0 ds"

definition take_sign :: "string \<Rightarrow> bool \<times> string" where
  "take_sign s =
     (case s of
        [] \<Rightarrow> (False, [])
      | c # cs \<Rightarrow> if c = CHR ''-'' then (True, cs) else if c = CHR ''+'' then (False, cs)
                 else (False, c # cs))"

definition skip_0x :: "nat \<Rightarrow> string \<Rightarrow> string" where
  "skip_0x base s =
     (case s of
        z # x # d # cs \<Rightarrow>
          if base = 16 \<and> z = CHR ''0'' \<and> x \<in> {CHR ''x'', CHR ''X''} \<and> is_digit 16 d
          then d # cs else s
      | _ \<Rightarrow> s)"

text \<open>
  The common part of \<open>strtol\<close> and \<open>strtoul\<close>: leading white space, an optional sign, the prefix
  of base 16, then the longest run of digits; \<open>None\<close> if there is no digit.
\<close>

definition scan_int :: "nat \<Rightarrow> string \<Rightarrow> (bool \<times> nat) option" where
  "scan_int base s =
     (let (neg, s1) = take_sign (dropWhile is_space s);
          ds = takeWhile (is_digit base) (skip_0x base s1)
      in if ds = [] then None else Some (neg, num_of base ds))"

definition stoi :: "string \<Rightarrow> nat \<Rightarrow> int outcome" where
  "stoi s base =
     (case scan_int base (c_str s) of
        None \<Rightarrow> Throw Invalid_argument
      | Some (neg, n) \<Rightarrow>
          let i = (if neg then - int n else int n)
          in if in_i32 i then Ret i else Throw Out_of_range)"

text \<open>\<open>strtoul\<close> negates modulo $2^{64}$ when the text has a minus sign.\<close>

definition stoul :: "string \<Rightarrow> nat outcome" where
  "stoul s =
     (case scan_int 10 (c_str s) of
        None \<Rightarrow> Throw Invalid_argument
      | Some (neg, n) \<Rightarrow>
          if 2 ^ 64 \<le> n then Throw Out_of_range
          else Ret (if neg then (2 ^ 64 - n) mod 2 ^ 64 else n))"

section \<open>Reading floating-point numbers\<close>

definition lower :: "char \<Rightarrow> char" where
  "lower c = (let n = of_char c :: nat in if 65 \<le> n \<and> n \<le> 90 then char_of (n + 32) else c)"

definition drop_ci :: "string \<Rightarrow> string \<Rightarrow> string option" where
  "drop_ci pat s =
     (if starts_with (map lower s) pat then Some (drop (length pat) s) else None)"

text \<open>A mantissa in a base: integer digits, optionally a point and fraction digits.\<close>

definition scan_mant :: "nat \<Rightarrow> string \<Rightarrow> (string \<times> string \<times> string) option" where
  "scan_mant base s =
     (let ip = takeWhile (is_digit base) s;
          r = dropWhile (is_digit base) s
      in case r of
           c # cs \<Rightarrow>
             if c = CHR ''.'' then
               let fp = takeWhile (is_digit base) cs
               in if ip = [] \<and> fp = [] then None
                  else Some (ip, fp, dropWhile (is_digit base) cs)
             else if ip = [] then None else Some (ip, [], r)
         | [] \<Rightarrow> if ip = [] then None else Some (ip, [], []))"

text \<open>An exponent introduced by the letter \<open>e\<close> (or \<open>p\<close>); zero if there is none.\<close>

definition scan_exp :: "char \<Rightarrow> string \<Rightarrow> int \<times> string" where
  "scan_exp e s =
     (case s of
        [] \<Rightarrow> (0, [])
      | c # cs \<Rightarrow>
          if lower c = e then
            let (neg, r) = take_sign cs; ds = takeWhile (is_digit 10) r
            in if ds = [] then (0, s)
               else (if neg then - int (num_of 10 ds) else int (num_of 10 ds),
                     dropWhile (is_digit 10) r)
          else (0, s))"

text \<open>The result of reading a magnitude exactly: an extended real and the unread rest.\<close>

datatype scanned = Mag real | Mag_inf | Mag_nan

definition scan_dec :: "string \<Rightarrow> (scanned \<times> string) option" where
  "scan_dec s =
     (case scan_mant 10 s of
        None \<Rightarrow> None
      | Some (ip, fp, r) \<Rightarrow>
          let (ex, r') = scan_exp (CHR ''e'') r
          in Some (Mag (of_nat (num_of 10 (ip @ fp)) * 10 powi (ex - int (length fp))), r'))"

definition scan_hex :: "string \<Rightarrow> (scanned \<times> string) option" where
  "scan_hex s =
     (case drop_ci ''0x'' s of
        None \<Rightarrow> None
      | Some s' \<Rightarrow>
          (case scan_mant 16 s' of
             None \<Rightarrow> None
           | Some (ip, fp, r) \<Rightarrow>
               let (ex, r') = scan_exp (CHR ''p'') r
               in Some (Mag (of_nat (num_of 16 (ip @ fp)) * 2 powi (ex - 4 * int (length fp))), r')))"

text \<open>\<open>nan\<close> may be followed by a parenthesised sequence of letters, digits and underscores.\<close>

definition skip_nan_arg :: "string \<Rightarrow> string" where
  "skip_nan_arg s =
     (case s of
        c # cs \<Rightarrow>
          if c = CHR ''('' then
            (case dropWhile (\<lambda>d. is_digit 36 d \<or> d = CHR ''_'') cs of
               d # ds \<Rightarrow> if d = CHR '')'' then ds else s
             | [] \<Rightarrow> s)
          else s
      | [] \<Rightarrow> [])"

definition scan_special :: "string \<Rightarrow> (scanned \<times> string) option" where
  "scan_special s =
     (case drop_ci ''infinity'' s of
        Some r \<Rightarrow> Some (Mag_inf, r)
      | None \<Rightarrow>
          (case drop_ci ''inf'' s of
             Some r \<Rightarrow> Some (Mag_inf, r)
           | None \<Rightarrow>
               (case drop_ci ''nan'' s of
                  Some r \<Rightarrow> Some (Mag_nan, skip_nan_arg r)
                | None \<Rightarrow> None)))"

definition scan_mag :: "string \<Rightarrow> (scanned \<times> string) option" where
  "scan_mag s =
     (case scan_special s of
        Some x \<Rightarrow> Some x
      | None \<Rightarrow> (case scan_hex s of Some x \<Rightarrow> Some x | None \<Rightarrow> scan_dec s))"

text \<open>
  Rounding the magnitude: overflow, and an inexact result below the smallest normal number, set
  \<open>ERANGE\<close>, which \<open>std::stod\<close> turns into \<open>std::out_of_range\<close>.
\<close>

definition mag_round :: "bool \<Rightarrow> real \<Rightarrow> double outcome" where
  "mag_round neg r =
     (if DBL_MAX < fl64 r \<or> (fl64 r \<noteq> r \<and> fl64 r < 2 powi (- 1022))
      then Throw Out_of_range else Ret (Fin neg (fl64 r)))"

fun mag_to_double :: "bool \<Rightarrow> scanned \<Rightarrow> double outcome" where
  "mag_to_double neg (Mag r) = mag_round neg r"
| "mag_to_double neg Mag_inf = Ret (Inf neg)"
| "mag_to_double neg Mag_nan = Ret NaN"

lemma mag_round_mid:
  assumes "1 / 1152921504606846976 \<le> r" "r \<le> 9007199254740992"
  shows "mag_round neg r = Ret (Fin neg (fl64 r))"
proof -
  have "fl64 r \<le> DBL_MAX"
    using fl64_le_int [of r "2 ^ 53"] DBL_MAX_ge assms by simp
  moreover have "2 powi (- 60) \<le> fl64 r"
    using fl64_mono [of "2 powi (- 60)" r] fl64_exact [of 1 "- 60"] assms
    by (simp add: power_int_minus)
  then have "2 powi (- 1022) \<le> fl64 r"
    using powi_le [of "- 1022" "- 60"] by simp
  ultimately show ?thesis by (simp add: mag_round_def)
qed

lemma mag_round_0: "mag_round neg 0 = Ret (Fin neg 0)"
  using DBL_MAX_ge by (simp add: mag_round_def)

lemma mag_round_code [code]:
  "mag_round neg r =
     (if r = 0 then Ret (Fin neg 0)
      else if 1 / 1152921504606846976 \<le> r then
        (if r \<le> 9007199254740992 then Ret (Fin neg (fl64 r))
         else if DBL_MAX < fl64 r then Throw Out_of_range
         else if fl64 r \<noteq> r \<and> fl64 r < 2 powi (- 1022) then Throw Out_of_range
         else Ret (Fin neg (fl64 r)))
      else if fl64 r \<noteq> r \<and> fl64 r < 2 powi (- 1022) then Throw Out_of_range
      else if DBL_MAX < fl64 r then Throw Out_of_range
      else Ret (Fin neg (fl64 r)))"
  using mag_round_mid [of r neg] mag_round_0 [of neg] by (auto simp: mag_round_def)

text \<open>\<open>std::stod(s, &idx)\<close>: the value and the number of bytes read.\<close>

definition stod_idx :: "string \<Rightarrow> (double \<times> nat) outcome" where
  "stod_idx s =
     (let cs = c_str s; (neg, s1) = take_sign (dropWhile is_space cs)
      in case scan_mag s1 of
           None \<Rightarrow> Throw Invalid_argument
         | Some (m, r) \<Rightarrow> omap (\<lambda>d. (d, length cs - length r)) (mag_to_double neg m))"

definition stod :: "string \<Rightarrow> double outcome" where
  "stod s = omap fst (stod_idx s)"

section \<open>Formatted output\<close>

definition digit_char :: "bool \<Rightarrow> nat \<Rightarrow> char" where
  "digit_char upper d =
     char_of (if d < 10 then 48 + d else if upper then 55 + d else 87 + d)"

fun nat_digits :: "bool \<Rightarrow> nat \<Rightarrow> nat \<Rightarrow> string" where
  "nat_digits up base n =
     (if base < 2 \<or> n < base then [digit_char up n]
      else nat_digits up base (n div base) @ [digit_char up (n mod base)])"

declare nat_digits.simps [simp del]

definition dec :: "nat \<Rightarrow> string" where "dec n = nat_digits False 10 n"

definition pad0 :: "nat \<Rightarrow> string \<Rightarrow> string" where
  "pad0 w s = replicate (w - length s) (CHR ''0'') @ s"

definition padsp :: "nat \<Rightarrow> string \<Rightarrow> string" where
  "padsp w s = replicate (w - length s) (CHR '' '') @ s"

text \<open>\<open>%d\<close>, \<open>%0wd\<close>, \<open>%02x\<close> (an \<open>int\<close> read as unsigned), \<open>%hhu\<close>, \<open>%hhX\<close>.\<close>

definition fmt_0d :: "nat \<Rightarrow> int \<Rightarrow> string" where
  "fmt_0d w i = (if i < 0 then CHR ''-'' # pad0 (w - 1) (dec (nat (- i))) else pad0 w (dec (nat i)))"

definition fmt_d :: "int \<Rightarrow> string" where
  "fmt_d i = fmt_0d 0 i"

definition fmt_0x :: "nat \<Rightarrow> int \<Rightarrow> string" where
  "fmt_0x w i = pad0 w (nat_digits False 16 (nat (i mod 2 ^ 32)))"

definition fmt_hhu :: "nat \<Rightarrow> uint8 \<Rightarrow> string" where
  "fmt_hhu w b = pad0 w (dec (unat b))"

definition fmt_hhX :: "uint8 \<Rightarrow> string" where
  "fmt_hhX b = nat_digits True 16 (unat b)"

text \<open>
  \<open>%w.plf\<close> and \<open>%0w.plf\<close>: the exact binary value rounded to \<open>p\<close> decimals, ties to even. The
  zero flag does not apply to infinities and NaN.
\<close>

definition fixed_digits :: "nat \<Rightarrow> real \<Rightarrow> string" where
  "fixed_digits p m =
     (let k = nat (rne (m * 10 ^ p))
      in dec (k div 10 ^ p) @ (if p = 0 then [] else CHR ''.'' # pad0 p (dec (k mod 10 ^ p))))"

fun fmt_f :: "bool \<Rightarrow> nat \<Rightarrow> nat \<Rightarrow> double \<Rightarrow> string" where
  "fmt_f zero w p (Fin s m) =
     (let body = fixed_digits p m; sg = (if s then ''-'' else [])
      in if zero then sg @ pad0 (w - length sg) body else padsp w (sg @ body))"
| "fmt_f zero w p (Inf s) = padsp w (if s then ''-inf'' else ''inf'')"
| "fmt_f zero w p NaN = padsp w ''nan''"

text \<open>\<open>std::snprintf(buf, n, \<dots>)\<close> keeps at most \<open>n - 1\<close> bytes before the NUL.\<close>

definition snprintf :: "nat \<Rightarrow> string \<Rightarrow> string" where
  "snprintf n s = take (n - 1) s"

section \<open>Facts about reading integers\<close>

lemma num_of_snoc: "num_of b (ds @ [c]) = num_of b ds * b + digit_val c"
  by (simp add: num_of_def)

lemma num_of_less:
  assumes "\<forall>c \<in> set ds. is_digit b c" "0 < b"
  shows "num_of b ds < b ^ length ds"
  using assms
proof (induction ds rule: rev_induct)
  case (snoc c cs)
  then have "num_of b cs + 1 \<le> b ^ length cs" "digit_val c < b" by (auto simp: is_digit_def)
  then have "(num_of b cs + 1) * b \<le> b ^ length cs * b" by (intro mult_le_mono1)
  with \<open>digit_val c < b\<close> show ?case by (simp add: num_of_snoc algebra_simps)
qed (simp add: num_of_def)

lemma take_sign_length:
  "length (snd (take_sign s)) \<le> length s"
  "fst (take_sign s) \<Longrightarrow> length (snd (take_sign s)) < length s"
  by (auto simp: take_sign_def split: list.splits if_splits)

lemma skip_0x_10 [simp]: "skip_0x 10 s = s"
  by (auto simp: skip_0x_def split: list.splits)

lemma scan_int_bound:
  assumes "scan_int 10 s = Some (neg, n)"
  shows "n < 10 ^ length s" "neg \<Longrightarrow> n < 10 ^ (length s - 1)"
proof -
  define t where "t = dropWhile is_space s"
  define ds where "ds = takeWhile (is_digit 10) (snd (take_sign t))"
  have n: "n = num_of 10 ds" and neg: "neg = fst (take_sign t)"
    using assms by (auto simp: scan_int_def t_def ds_def Let_def split: prod.splits if_splits)
  have "n < 10 ^ length ds"
    unfolding n by (rule num_of_less) (auto simp: ds_def dest: set_takeWhileD)
  moreover have t: "length t \<le> length s" by (simp add: t_def length_dropWhile_le)
  moreover have "length ds \<le> length (snd (take_sign t))"
    by (simp add: ds_def length_takeWhile_le)
  ultimately have "n < 10 ^ length (snd (take_sign t))"
    by (meson less_le_trans one_le_numeral power_increasing)
  then show "n < 10 ^ length s"
    using take_sign_length(1) [of t] t
    by (meson less_le_trans le_trans one_le_numeral power_increasing)
  assume neg
  then have "length (snd (take_sign t)) \<le> length s - 1"
    using take_sign_length(2) [of t] neg t by simp
  with \<open>n < 10 ^ length (snd (take_sign t))\<close> show "n < 10 ^ (length s - 1)"
    by (meson less_le_trans one_le_numeral power_increasing)
qed

lemma length_c_str: "length (c_str s) \<le> length s"
  by (simp add: c_str_def length_takeWhile_le)

lemma stoi_no_UB: "stoi s base \<noteq> UB"
  by (auto simp: stoi_def Let_def split: option.splits prod.splits)

lemma stoi_short:
  assumes "stoi s 10 = Ret i" "length s \<le> k"
  shows "i < 10 ^ k" "- (10 ^ (k - 1)) < i"
proof -
  obtain neg n where sc: "scan_int 10 (c_str s) = Some (neg, n)"
    and i: "i = (if neg then - int n else int n)"
    using assms(1) by (auto simp: stoi_def Let_def split: option.splits prod.splits if_splits)
  have len: "length (c_str s) \<le> k" using length_c_str [of s] assms(2) by simp
  have "n < 10 ^ k" using scan_int_bound(1) [OF sc] len
    by (meson less_le_trans power_increasing one_le_numeral)
  then have nk: "int n < 10 ^ k" by (metis of_nat_less_iff of_nat_numeral of_nat_power)
  show "i < 10 ^ k" using nk i by (cases neg) (auto intro: le_less_trans [of _ 0])
  show "- (10 ^ (k - 1)) < i"
  proof (cases neg)
    case True
    then have "n < 10 ^ (length (c_str s) - 1)" using scan_int_bound(2) [OF sc] by simp
    also have "\<dots> \<le> 10 ^ (k - 1)" using len by (intro power_increasing) simp_all
    finally have "int n < 10 ^ (k - 1)" by (metis of_nat_less_iff of_nat_numeral of_nat_power)
    then show ?thesis using i True by simp
  next
    case False
    have "- (10 ^ (k - 1)) < (0::int)" by simp
    also have "0 \<le> i" using i False by simp
    finally show ?thesis .
  qed
qed

section \<open>Reading back printed integers\<close>

lemma digit_val_char [simp]: "d < 16 \<Longrightarrow> digit_val (digit_char up d) = d"
  by (auto simp: digit_val_def digit_char_def Let_def)

lemma num_of_Nil [simp]: "num_of b [] = 0"
  by (simp add: num_of_def)

lemma num_of_nat_digits:
  assumes "2 \<le> b" "b \<le> 16"
  shows "num_of b (nat_digits up b n) = n"
  using assms
proof (induction up b n rule: nat_digits.induct)
  case (1 up b n)
  show ?case
  proof (cases "n < b")
    case True
    with 1 show ?thesis by (subst nat_digits.simps) (simp add: num_of_def)
  next
    case False
    with 1 have "num_of b (nat_digits up b (n div b)) = n div b" by simp
    moreover have "n mod b < 16" using 1 by (meson le_trans mod_less_divisor less_le_trans pos2)
    ultimately show ?thesis using 1 False by (subst nat_digits.simps) (simp add: num_of_snoc)
  qed
qed

lemma nat_digits_are_digits:
  assumes "2 \<le> b" "b \<le> 16"
  shows "c \<in> set (nat_digits up b n) \<Longrightarrow> is_digit b c"
  using assms
proof (induction up b n rule: nat_digits.induct)
  case (1 up b n)
  have m: "is_digit b (digit_char up (n mod b))"
    using 1 less_le_trans [of "n mod b" b 16] by (simp add: is_digit_def)
  show ?case
  proof (cases "n < b")
    case True
    with 1 show ?thesis by (subst (asm) (2) nat_digits.simps) (simp add: is_digit_def)
  next
    case False
    with 1 m show ?thesis
      by (subst (asm) (2) nat_digits.simps) auto
  qed
qed

lemma num_of_zeros: "num_of b (replicate k (CHR ''0'') @ ds) = num_of b ds"
proof -
  have "foldl (\<lambda>a c. a * b + digit_val c) 0 (replicate k (CHR ''0'')) = 0"
    by (induction k) (simp_all add: digit_val_def)
  then show ?thesis by (simp add: num_of_def)
qed

lemma is_digit_not_special:
  assumes "is_digit 16 c"
  shows "\<not> is_space c" "c \<noteq> CHR ''-''" "c \<noteq> CHR ''+''" "c \<noteq> CHR 0x00" "c \<noteq> CHR ''x''" "c \<noteq> CHR ''X''" "c \<noteq> CHR ''*''"
  using assms by (auto simp: is_digit_def digit_val_def is_space_def split: if_splits)

lemma dropWhile_hd: "xs = [] \<or> \<not> P (hd xs) \<Longrightarrow> dropWhile P xs = xs"
  by (cases xs) auto

lemma skip_0x_digits:
  assumes "\<forall>c \<in> set ds. is_digit 16 c"
  shows "skip_0x b ds = ds"
proof -
  have "x \<notin> {CHR ''x'', CHR ''X''}" if "ds = z # x # cs" for z x cs
    using assms that is_digit_not_special(5,6) [of x] by auto
  then show ?thesis by (simp add: skip_0x_def split: list.split)
qed

lemma c_str_id: "CHR 0x00 \<notin> set s \<Longrightarrow> c_str s = s"
  by (auto simp: c_str_def)

lemma scan_int_digits:
  assumes "ds \<noteq> []" "\<forall>c \<in> set ds. is_digit b c" "b \<le> 16" "rest = [] \<or> \<not> is_digit b (hd rest)" "skip_0x b (ds @ rest) = ds @ rest"
  shows "scan_int b (ds @ rest) = Some (False, num_of b ds)"
proof -
  obtain c cs where ds: "ds = c # cs" using assms(1) by (cases ds) auto
  have c: "is_digit 16 c" using assms(2,3) ds by (auto simp: is_digit_def)
  have "take_sign (dropWhile is_space (ds @ rest)) = (False, ds @ rest)"
    using is_digit_not_special [OF c] by (simp add: ds take_sign_def)
  moreover have "takeWhile (is_digit b) (ds @ rest) = ds"
    using assms(2,4) by (cases rest) auto
  ultimately show ?thesis using assms(1,5) by (simp add: scan_int_def)
qed

text \<open>Reading back what \<open>%0wd\<close> or \<open>%0wx\<close> printed.\<close>

lemma stoi_pad0:
  assumes "2 \<le> b" "b \<le> 16" "int n \<le> INT32_MAX"
  shows "stoi (pad0 w (nat_digits up b n)) b = Ret (int n)"
proof -
  let ?s = "pad0 w (nat_digits up b n)"
  have dig: "\<forall>c \<in> set ?s. is_digit b c"
    using nat_digits_are_digits [OF assms(1,2)] assms(1)
    by (auto simp: pad0_def is_digit_def digit_val_def)
  then have dig16: "\<forall>c \<in> set ?s. is_digit 16 c" using assms(2) by (auto simp: is_digit_def)
  have ne: "?s \<noteq> []" by (subst nat_digits.simps) (simp add: pad0_def)
  have "c_str ?s = ?s" using dig16 is_digit_not_special(4) by (intro c_str_id) blast
  moreover have "scan_int b ?s = Some (False, n)"
    using scan_int_digits [OF ne dig assms(2), of "[]"] skip_0x_digits [OF dig16]
    by (simp add: pad0_def num_of_zeros num_of_nat_digits assms)
  ultimately show ?thesis
    using assms(3) by (simp add: stoi_def in_i32_def INT32_MIN_def)
qed
lemma length_nat_digits:
  assumes "2 \<le> b" "n < b ^ k" "0 < k"
  shows "length (nat_digits up b n) \<le> k"
  using assms
proof (induction up b n arbitrary: k rule: nat_digits.induct)
  case (1 up b n)
  show ?case
  proof (cases "n < b")
    case False
    obtain j where k: "k = Suc j" using "1.prems"(3) by (cases k) auto
    moreover have "0 < j" using False k "1.prems"(2) by (cases j) simp_all
    ultimately have k: "k = Suc j" "0 < j" by simp_all
    with "1.prems" have "n div b < b ^ j" by (simp add: less_mult_imp_div_less mult.commute)
    with False k "1.IH" [of j] "1.prems" show ?thesis by (subst nat_digits.simps) simp
  qed (use "1.prems" in \<open>subst nat_digits.simps, simp\<close>)
qed

lemma length_pad0_digits:
  "2 \<le> b \<Longrightarrow> n < b ^ k \<Longrightarrow> 0 < k \<Longrightarrow> length (pad0 k (nat_digits up b n)) = k"
  using length_nat_digits [of b n k up] by (simp add: pad0_def)

lemma index_where_append:
  "\<forall>x \<in> set xs. \<not> p x \<Longrightarrow> p y \<Longrightarrow> index_where p (xs @ y # ys) = Some (length xs)"
  by (induction xs) auto

end
