(* ===== verification/Util_Utility.thy ===== *)
theory Util_Utility
  imports Cpp_String
begin

text \<open>
  \<open>include/util/utility.hpp\<close>: reading numbers from strings with stream extraction, trimming, and
  splitting at commas.
\<close>

section \<open>Numbers\<close>

text \<open>\<open>Number = boost::variant<std::int32_t, std::uint64_t, double>\<close>, \<open>OptNumber\<close> its optional.\<close>

datatype number = I32 int | U64 nat | Dbl double

type_synonym opt_number = "number option"

text \<open>
  \<open>stringToNumber<T>\<close> extracts a \<open>T\<close> from a string stream. The extraction skips white space,
  reads the longest prefix of the type's syntax and fails if that is not a number of the type;
  what follows is left in the stream. A minus sign on an unsigned number negates it modulo
  $2^{64}$.
\<close>

definition stringToNumber_i32 :: "string \<Rightarrow> opt_number" where
  "stringToNumber_i32 s =
     (case scan_int 10 s of
        None \<Rightarrow> None
      | Some (neg, n) \<Rightarrow>
          let i = (if neg then - int n else int n) in if in_i32 i then Some (I32 i) else None)"

definition stringToNumber_u64 :: "string \<Rightarrow> opt_number" where
  "stringToNumber_u64 s =
     (case scan_int 10 s of
        None \<Rightarrow> None
      | Some (neg, n) \<Rightarrow>
          if 2 ^ 64 \<le> n then None
          else Some (U64 (if neg then (2 ^ 64 - n) mod 2 ^ 64 else n)))"

text \<open>
  The floating-point extraction collects a sign, digits with at most one point, and an exponent
  letter with its sign; a collected exponent letter without digits makes it fail.
\<close>

definition dangling_exp :: "string \<Rightarrow> bool" where
  "dangling_exp r =
     (case r of
        [] \<Rightarrow> False
      | c # cs \<Rightarrow> lower c = CHR ''e'' \<and> takeWhile (is_digit 10) (snd (take_sign cs)) = [])"

definition stringToNumber_double :: "string \<Rightarrow> opt_number" where
  "stringToNumber_double s =
     (let (neg, s1) = take_sign (dropWhile is_space s) in
      case scan_mant 10 s1 of
        None \<Rightarrow> None
      | Some (ip, fp, r) \<Rightarrow>
          if dangling_exp r then None
          else let v = of_nat (num_of 10 (ip @ fp)) * 10 powi (fst (scan_exp (CHR ''e'') r) - int (length fp))
               in (case fin_round False v of
                     Fin _ m \<Rightarrow> Some (Dbl (Fin neg m))
                   | _ \<Rightarrow> None))"

section \<open>Strings\<close>

definition trimString :: "string \<Rightarrow> string" where
  "trimString str =
     (let f = find_first_not_of str (CHR '' '');
          str1 = (if f \<noteq> npos then drop f str else str);
          l = find_last_not_of str1 (CHR '' '')
      in if l \<noteq> npos then take (l + 1) str1 else str1)"

text \<open>The loop \<open>while (std::getline(ss, item, ','))\<close>: it stops when nothing is left to read.\<close>

function splitCommaSeparated :: "string \<Rightarrow> string list" where
  "splitCommaSeparated str =
     (if str = [] then []
      else let item = takeWhile (\<lambda>c. c \<noteq> CHR '','') str
           in trimString item #
              (case dropWhile (\<lambda>c. c \<noteq> CHR '','') str of
                 [] \<Rightarrow> []
               | _ # rest \<Rightarrow> splitCommaSeparated rest))"
  by pat_completeness auto
termination
proof (relation "measure length", goal_cases)
  case (2 str x c rest)
  from length_dropWhile_le [of "\<lambda>c. c \<noteq> CHR '',''" str] 2(3) show ?case by simp
qed simp

declare splitCommaSeparated.simps [simp del]

end
