(* ===== verification/Obj_TimeStamp.thy ===== *)
theory Obj_TimeStamp
  imports Cpp_String
begin

text \<open>
  \<open>include/object/TimeStamp.hpp\<close>: time stamps of reports. The clock (\<open>DateTimeT::day()\<close> and
  \<open>DateTimeT::now()\<close>, read from the system by \<open>DateTimeImplBoost\<close>) is a parameter: the day
  number and the milliseconds since midnight.
\<close>

section \<open>Definitions\<close>

datatype ts_format = HHMMSS | HH_MM_SS_FFF

datatype timeStamp = TimeStamp (m_value: int) (m_day: uint32)

definition ts_default :: timeStamp where
  "ts_default = TimeStamp 0 0"

text \<open>\<open>std::stoi(value.substr(pos, n))\<close>.\<close>

definition ts_field :: "string \<Rightarrow> nat \<Rightarrow> nat \<Rightarrow> int outcome" where
  "ts_field value pos n = obind (str_substr value pos n) (\<lambda>s. stoi s 10)"

fun ts_scan :: "string \<Rightarrow> ts_format \<Rightarrow> (int \<times> int \<times> int \<times> int) outcome" where
  "ts_scan value HHMMSS =
     obind (ts_field value 0 2) (\<lambda>h. obind (ts_field value 2 2) (\<lambda>m.
     obind (ts_field value 4 2) (\<lambda>s. Ret (h, m, s, 0))))"
| "ts_scan value HH_MM_SS_FFF =
     obind (ts_field value 0 2) (\<lambda>h. obind (ts_field value 3 2) (\<lambda>m.
     obind (ts_field value 6 2) (\<lambda>s. obind (ts_field value 9 3) (\<lambda>f. Ret (h, m, s, f)))))"

definition TimeStamp_new :: "uint32 \<Rightarrow> int \<Rightarrow> string \<Rightarrow> ts_format \<Rightarrow> timeStamp outcome" where
  "TimeStamp_new day now value format =
     obind (ocatch (\<lambda>e. e = Out_of_range) (ts_scan value format) (Throw Invalid_argument))
       (\<lambda>(h, m, s, f).
          if h > 23 \<or> m > 59 \<or> s > 59 \<or> f > 999 then Throw Invalid_argument
          else obind (i32 (h * 3600000 + m * 60000 + s * 1000 + f))
                 (\<lambda>v. Ret (TimeStamp v (if v \<ge> now then day - 1 else day))))"

definition ts_gt :: "timeStamp \<Rightarrow> timeStamp \<Rightarrow> bool" where
  "ts_gt a b \<longleftrightarrow> m_day b < m_day a \<or> (m_day a = m_day b \<and> m_value b < m_value a)"

section \<open>The order of time stamps\<close>

instantiation timeStamp :: linorder
begin

definition less_timeStamp :: "timeStamp \<Rightarrow> timeStamp \<Rightarrow> bool" where
  "less_timeStamp a b \<longleftrightarrow> ts_gt b a"

definition less_eq_timeStamp :: "timeStamp \<Rightarrow> timeStamp \<Rightarrow> bool" where
  "less_eq_timeStamp a b \<longleftrightarrow> \<not> ts_gt a b"

instance
  by standard
     (auto simp: less_timeStamp_def less_eq_timeStamp_def ts_gt_def timeStamp.expand)

end

lemma ts_gt_iff [simp]: "ts_gt a b \<longleftrightarrow> b < a"
  by (simp add: less_timeStamp_def)

section \<open>Reading the fields\<close>

lemma ts_field_bound:
  assumes "ts_field v p k = Ret i"
  shows "- (10 ^ (k - 1)) < i" "i < 10 ^ k"
  using assms stoi_short [of "take k (drop p v)" i k]
  by (auto simp: ts_field_def str_substr_def split: if_splits)

lemma ts_scan_bound:
  assumes "ts_scan v fmt = Ret (h, m, s, f)"
  shows "- 10 < h" "- 10 < m" "- 10 < s" "- 100 < f"
  using assms by (cases fmt; auto elim!: obind_RetE dest: ts_field_bound)+

lemma ts_scan_cases:
  "ts_scan v fmt \<noteq> UB" "ts_scan v fmt = Throw e \<Longrightarrow> e = Out_of_range \<or> e = Invalid_argument"
proof -
  have f: "ts_field v p k \<noteq> UB"
    "ts_field v p k = Throw e' \<Longrightarrow> e' = Out_of_range \<or> e' = Invalid_argument" for p k e'
    by (auto simp: ts_field_def str_substr_def stoi_def Let_def
             split: if_splits option.splits prod.splits)
  show "ts_scan v fmt \<noteq> UB" by (cases fmt) (auto simp: obind_eq_UB_conv f(1))
  show "ts_scan v fmt = Throw e \<Longrightarrow> e = Out_of_range \<or> e = Invalid_argument"
    by (cases fmt) (auto simp: obind_eq_Throw_conv dest: f(2))
qed

section \<open>The constructor\<close>

lemma TimeStamp_new_Ret:
  assumes "TimeStamp_new day now value format = Ret t"
  obtains h m s f where "ts_scan value format = Ret (h, m, s, f)"
    "h \<le> 23" "m \<le> 59" "s \<le> 59" "f \<le> 999"
    "m_value t = h * 3600000 + m * 60000 + s * 1000 + f"
    "m_day t = (if m_value t \<ge> now then day - 1 else day)"
proof -
  from assms obtain x
    where x: "ts_scan value format = Ret x"
      and r: "(\<lambda>(h, m, s, f).
          if h > 23 \<or> m > 59 \<or> s > 59 \<or> f > 999 then Throw Invalid_argument
          else obind (i32 (h * 3600000 + m * 60000 + s * 1000 + f))
                 (\<lambda>v. Ret (TimeStamp v (if v \<ge> now then day - 1 else day)))) x = Ret t"
    by (auto simp: TimeStamp_new_def obind_eq_Ret_conv ocatch_eq_Ret_conv)
  obtain h m s f where "x = (h, m, s, f)" by (metis prod_cases4)
  with x r show thesis
    by (intro that [of h m s f]) (auto simp: obind_eq_Ret_conv split: if_splits)
qed

text \<open>The millisecond a stamp stands for, counted from day zero.\<close>

definition abs_ms :: "timeStamp \<Rightarrow> int" where
  "abs_ms t = uint (m_day t) * 86400000 + m_value t"

text \<open>
  Reading a time string always ends in a time stamp or in \<open>std::invalid_argument\<close>; the field
  conversions never let \<open>std::out_of_range\<close> out and the arithmetic never overflows, whatever the
  string is.
\<close>

lemma TimeStamp_new_total:
  "(\<exists>t. TimeStamp_new day now value format = Ret t) \<or>
   TimeStamp_new day now value format = Throw Invalid_argument"
proof (cases "ts_scan value format")
  case (Ret x)
  obtain h m s f where x: "x = (h, m, s, f)" by (metis prod_cases4)
  note b = ts_scan_bound [OF Ret [unfolded x]]
  show ?thesis
  proof (cases "h > 23 \<or> m > 59 \<or> s > 59 \<or> f > 999")
    case False
    with b have "in_i32 (h * 3600000 + m * 60000 + s * 1000 + f)" by (simp add: in_i32_iff)
    with False Ret x show ?thesis by (simp add: TimeStamp_new_def i32_def)
  qed (use Ret x in \<open>auto simp: TimeStamp_new_def\<close>)
next
  case (Throw e)
  then show ?thesis using ts_scan_cases(2) [OF Throw] by (auto simp: TimeStamp_new_def)
qed (simp add: ts_scan_cases)

text \<open>
  The day correction makes every stamp lie in the past: a stamp read while the clock shows
  \<open>now\<close> milliseconds of day \<open>day\<close> denotes a millisecond strictly before that moment.
\<close>

lemma TimeStamp_new_past:
  assumes "TimeStamp_new day now value format = Ret t" "0 < day" "0 \<le> now"
  shows "abs_ms t < uint day * 86400000 + now"
proof -
  from assms(1) obtain h m s f where v: "h \<le> 23" "m \<le> 59" "s \<le> 59" "f \<le> 999"
    "m_value t = h * 3600000 + m * 60000 + s * 1000 + f"
    and d: "m_day t = (if m_value t \<ge> now then day - 1 else day)"
    by (rule TimeStamp_new_Ret)
  have "uint (day - 1) = uint day - 1"
    using assms(2) by uint_arith
  with v d assms(3) show ?thesis by (auto simp: abs_ms_def)
qed

text \<open>
  A well-formed time of day survives the round trip: printing hours, minutes and seconds as
  two digits each, the way the feeds send them, and reading the result gives the milliseconds of
  that time, on the current day if it has already passed and on the day before otherwise.
\<close>

lemma TimeStamp_new_roundtrip:
  assumes "h < 24" "m < 60" "s < 60"
  shows "TimeStamp_new day now (pad0 2 (dec h) @ pad0 2 (dec m) @ pad0 2 (dec s)) HHMMSS =
    Ret (let v = int h * 3600000 + int m * 60000 + int s * 1000
         in TimeStamp v (if now \<le> v then day - 1 else day))"
proof -
  have len: "length (pad0 2 (dec n)) = 2" if "n < 100" for n
    unfolding dec_def using that by (intro length_pad0_digits) simp_all
  have rd: "stoi (pad0 2 (dec n)) 10 = Ret (int n)" if "n < 100" for n
    unfolding dec_def using that by (intro stoi_pad0) (simp_all add: INT32_MAX_def)
  have "ts_scan (pad0 2 (dec h) @ pad0 2 (dec m) @ pad0 2 (dec s)) HHMMSS = Ret (int h, int m, int s, 0)"
    using assms by (simp add: ts_field_def str_substr_def len rd)
  moreover have "in_i32 (int h * 3600000 + int m * 60000 + int s * 1000)"
    using assms by (simp add: in_i32_iff)
  ultimately show ?thesis using assms by (simp add: TimeStamp_new_def i32_def Let_def)
qed

end
