(* ===== verification/Obj_Objects.thy ===== *)
theory Obj_Objects
  imports Obj_TimeStamp
begin

text \<open>
  \<open>include/object\<close> and \<open>src/object\<close>: the base class \<open>Object\<close> with its priority, age and
  serialized text, and the classes derived from it. A derived class is a record extension; an
  \<open>Object&\<close> whose dynamic class matters (virtual calls, \<open>dynamic_cast\<close>) is a value of
  \<open>dyn_object\<close>.
\<close>

section \<open>Data\<close>

definition OBJ_OUTDATED :: uint32 where "OBJ_OUTDATED = 4"

record object =
  m_lastPriority :: uint32
  m_updateAge :: uint32
  m_serialized :: string

record position =
  latitude :: double
  longitude :: double
  altitude :: int

record movement =
  gndSpeed :: double
  heading :: double
  climbRate :: double

datatype targetType = FLARM | TRANSPONDER

text \<open>
  The enumerations \<open>AircraftType\<close> and \<open>IdType\<close> have an 8-bit underlying type and receive values
  by \<open>static_cast\<close> from numbers, so a variable can hold any byte.
\<close>

type_synonym aircraftType = uint8
type_synonym idType = uint8

definition AT_UNKNOWN :: aircraftType where "AT_UNKNOWN = 0"
definition AT_POWERED_AIRCRAFT :: aircraftType where "AT_POWERED_AIRCRAFT = 8"
definition AT_STATIC_OBJECT :: aircraftType where "AT_STATIC_OBJECT = 15"
definition ID_RANDOM :: idType where "ID_RANDOM = 0"
definition ID_ICAO :: idType where "ID_ICAO = 1"
definition ID_OGN :: idType where "ID_OGN = 3"

record aircraft = object +
  ac_id :: string
  ac_idType :: idType
  ac_aircraftType :: aircraftType
  ac_targetType :: targetType
  ac_position :: position
  ac_movement :: movement
  ac_timeStamp :: timeStamp
  ac_fullInfo :: bool

record gpsPosition = object +
  gps_position :: position
  gps_geoid :: double
  gps_timeStamp :: timeStamp
  gps_dilution :: double
  gps_nrOfSatellites :: uint8
  gps_fixQuality :: int

record atmosphere = object +
  atm_pressure :: double

text \<open>\<open>Wind\<close> adds no member to \<open>Object\<close>.\<close>

type_synonym wind = object

datatype dyn_object =
    DObject object
  | DAircraft aircraft
  | DGpsPosition gpsPosition
  | DAtmosphere atmosphere
  | DWind wind

fun upcast :: "dyn_object \<Rightarrow> object" where
  "upcast (DObject x) = x"
| "upcast (DAircraft x) = object.truncate x"
| "upcast (DGpsPosition x) = object.truncate x"
| "upcast (DAtmosphere x) = object.truncate x"
| "upcast (DWind x) = x"

section \<open>Constructors and setters\<close>

definition Object_new :: "uint32 \<Rightarrow> object" where
  "Object_new priority = \<lparr>m_lastPriority = priority, m_updateAge = 0, m_serialized = []\<rparr>"

definition A_VALUE_NA :: double where "A_VALUE_NA = dlit (- 1024)"

definition Movement_new :: movement where
  "Movement_new = \<lparr>gndSpeed = A_VALUE_NA, heading = A_VALUE_NA, climbRate = A_VALUE_NA\<rparr>"

definition Position_zero :: position where
  "Position_zero = \<lparr>latitude = dlit 0, longitude = dlit 0, altitude = 0\<rparr>"

definition Aircraft_new :: "uint32 \<Rightarrow> aircraft" where
  "Aircraft_new priority =
     object.extend (Object_new priority)
       (aircraft.fields [] ID_ICAO AT_POWERED_AIRCRAFT TRANSPONDER Position_zero Movement_new
          ts_default False)"

definition GpsPosition_new :: "uint32 \<Rightarrow> gpsPosition" where
  "GpsPosition_new priority =
     object.extend (Object_new priority)
       (gpsPosition.fields Position_zero (dlit 0) ts_default (dlit 0) 1 5)"

definition GpsPosition_at :: "position \<Rightarrow> double \<Rightarrow> gpsPosition" where
  "GpsPosition_at pos geoid = (GpsPosition_new 0)\<lparr>gps_position := pos, gps_geoid := geoid\<rparr>"

definition ICAO_STD_A :: double where "ICAO_STD_A = dlit 1013.25"

definition Atmosphere_new :: "uint32 \<Rightarrow> atmosphere" where
  "Atmosphere_new priority = object.extend (Object_new priority) (atmosphere.fields ICAO_STD_A)"

definition Atmosphere_with :: "double \<Rightarrow> uint32 \<Rightarrow> atmosphere" where
  "Atmosphere_with pressure priority = (Atmosphere_new priority)\<lparr>atm_pressure := pressure\<rparr>"

definition Wind_new :: "uint32 \<Rightarrow> wind" where
  "Wind_new priority = Object_new priority"

definition set_aircraftType :: "aircraftType \<Rightarrow> aircraft \<Rightarrow> aircraft" where
  "set_aircraftType t a = a\<lparr>ac_aircraftType := (if t > AT_STATIC_OBJECT then AT_UNKNOWN else t)\<rparr>"

definition set_idType :: "idType \<Rightarrow> aircraft \<Rightarrow> aircraft" where
  "set_idType t a = a\<lparr>ac_idType := (if t > ID_OGN then ID_RANDOM else t)\<rparr>"

section \<open>Updating\<close>

definition Object_incr :: "'a object_scheme \<Rightarrow> 'a object_scheme" where
  "Object_incr x = x\<lparr>m_updateAge := m_updateAge x + 1\<rparr>"

text \<open>\<open>this->canUpdate(other)\<close> of the base class: may \<open>this\<close> replace the data of \<open>other\<close>?\<close>

definition Object_canUpdate :: "'a object_scheme \<Rightarrow> 'b object_scheme \<Rightarrow> bool" where
  "Object_canUpdate this other \<longleftrightarrow>
     m_lastPriority this \<ge> m_lastPriority other \<or> m_updateAge other \<ge> OBJ_OUTDATED"

definition Object_assign :: "'a object_scheme \<Rightarrow> 'b object_scheme \<Rightarrow> 'a object_scheme" where
  "Object_assign this other =
     this\<lparr>m_serialized := m_serialized other, m_lastPriority := m_lastPriority other,
          m_updateAge := 0\<rparr>"

definition Aircraft_canUpdate :: "aircraft \<Rightarrow> aircraft \<Rightarrow> bool" where
  "Aircraft_canUpdate this toUpdate \<longleftrightarrow>
     ts_gt (ac_timeStamp this) (ac_timeStamp toUpdate) \<and>
     (ac_targetType toUpdate = TRANSPONDER \<or> ac_targetType this = FLARM) \<and>
     Object_canUpdate this toUpdate"

definition Aircraft_assign :: "aircraft \<Rightarrow> aircraft \<Rightarrow> aircraft" where
  "Aircraft_assign this update =
     (Object_assign this update)
       \<lparr>ac_idType := ac_idType update, ac_aircraftType := ac_aircraftType update,
        ac_targetType := ac_targetType update, ac_position := ac_position update,
        ac_movement := ac_movement update, ac_timeStamp := ac_timeStamp update,
        ac_fullInfo := ac_fullInfo update\<rparr>"

definition GpsPosition_canUpdate :: "gpsPosition \<Rightarrow> gpsPosition \<Rightarrow> bool" where
  "GpsPosition_canUpdate this toUpdate \<longleftrightarrow>
     ts_gt (gps_timeStamp this) (gps_timeStamp toUpdate) \<and> Object_canUpdate this toUpdate"

definition GpsPosition_assign :: "gpsPosition \<Rightarrow> gpsPosition \<Rightarrow> gpsPosition" where
  "GpsPosition_assign this update =
     (Object_assign this update)
       \<lparr>gps_position := gps_position update, gps_timeStamp := gps_timeStamp update,
        gps_nrOfSatellites := gps_nrOfSatellites update, gps_fixQuality := gps_fixQuality update,
        gps_geoid := gps_geoid update, gps_dilution := gps_dilution update\<rparr>"

definition Atmosphere_assign :: "atmosphere \<Rightarrow> atmosphere \<Rightarrow> atmosphere" where
  "Atmosphere_assign this update = (Object_assign this update)\<lparr>atm_pressure := atm_pressure update\<rparr>"

text \<open>
  Virtual dispatch. A failed \<open>dynamic_cast\<close> makes \<open>canUpdate\<close> false and \<open>assign\<close> a no-op;
  \<open>Atmosphere\<close> and \<open>Wind\<close> inherit \<open>canUpdate\<close>, \<open>Wind\<close> also inherits \<open>assign\<close>.
\<close>

fun canUpdate :: "dyn_object \<Rightarrow> dyn_object \<Rightarrow> bool" where
  "canUpdate (DAircraft this) (DAircraft other) = Aircraft_canUpdate this other"
| "canUpdate (DAircraft this) _ = False"
| "canUpdate (DGpsPosition this) (DGpsPosition other) = GpsPosition_canUpdate this other"
| "canUpdate (DGpsPosition this) _ = False"
| "canUpdate this other = Object_canUpdate (upcast this) (upcast other)"

fun assign :: "dyn_object \<Rightarrow> dyn_object \<Rightarrow> dyn_object" where
  "assign (DAircraft this) (DAircraft other) = DAircraft (Aircraft_assign this other)"
| "assign (DAircraft this) _ = DAircraft this"
| "assign (DGpsPosition this) (DGpsPosition other) = DGpsPosition (GpsPosition_assign this other)"
| "assign (DGpsPosition this) _ = DGpsPosition this"
| "assign (DAtmosphere this) (DAtmosphere other) = DAtmosphere (Atmosphere_assign this other)"
| "assign (DAtmosphere this) _ = DAtmosphere this"
| "assign (DWind this) other = DWind (Object_assign this (upcast other))"
| "assign (DObject this) other = DObject (Object_assign this (upcast other))"

definition tryUpdate :: "dyn_object \<Rightarrow> dyn_object \<Rightarrow> bool \<times> dyn_object" where
  "tryUpdate this other = (if canUpdate other this then (True, assign this other) else (False, this))"

text \<open>The calls the data containers make, where the class of the receiver is known.\<close>

definition Aircraft_tryUpdate :: "aircraft \<Rightarrow> dyn_object \<Rightarrow> bool \<times> aircraft" where
  "Aircraft_tryUpdate this other =
     (case tryUpdate (DAircraft this) other of
        (b, DAircraft a) \<Rightarrow> (b, a) | (b, _) \<Rightarrow> (b, this))"

definition GpsPosition_tryUpdate :: "gpsPosition \<Rightarrow> dyn_object \<Rightarrow> bool \<times> gpsPosition" where
  "GpsPosition_tryUpdate this other =
     (case tryUpdate (DGpsPosition this) other of
        (b, DGpsPosition a) \<Rightarrow> (b, a) | (b, _) \<Rightarrow> (b, this))"

definition Atmosphere_tryUpdate :: "atmosphere \<Rightarrow> dyn_object \<Rightarrow> bool \<times> atmosphere" where
  "Atmosphere_tryUpdate this other =
     (case tryUpdate (DAtmosphere this) other of
        (b, DAtmosphere a) \<Rightarrow> (b, a) | (b, _) \<Rightarrow> (b, this))"

definition Wind_tryUpdate :: "wind \<Rightarrow> dyn_object \<Rightarrow> bool \<times> wind" where
  "Wind_tryUpdate this other =
     (case tryUpdate (DWind this) other of
        (b, DWind a) \<Rightarrow> (b, a) | (b, _) \<Rightarrow> (b, this))"

section \<open>Frame facts\<close>

lemma Object_incr_simps [simp]:
  "m_updateAge (Object_incr x) = m_updateAge x + 1"
  "m_serialized (Object_incr x) = m_serialized x"
  "m_lastPriority (Object_incr x) = m_lastPriority x"
  "object.more (Object_incr x) = object.more x"
  by (simp_all add: Object_incr_def)

lemma aircraft_incr_simps [simp]:
  "ac_id (Object_incr a) = ac_id a" "ac_targetType (Object_incr a) = ac_targetType a"
  "ac_timeStamp (Object_incr a) = ac_timeStamp a"
  by (simp_all add: Object_incr_def)

lemma Aircraft_assign_simps [simp]:
  "ac_id (Aircraft_assign a u) = ac_id a"
  "m_updateAge (Aircraft_assign a u) = 0"
  "m_serialized (Aircraft_assign a u) = m_serialized u"
  "m_lastPriority (Aircraft_assign a u) = m_lastPriority u"
  "ac_targetType (Aircraft_assign a u) = ac_targetType u"
  "ac_timeStamp (Aircraft_assign a u) = ac_timeStamp u"
  "ac_position (Aircraft_assign a u) = ac_position u"
  by (simp_all add: Aircraft_assign_def Object_assign_def)

lemma Aircraft_tryUpdate_eq:
  "Aircraft_tryUpdate a (DAircraft u) =
     (if Aircraft_canUpdate u a then (True, Aircraft_assign a u) else (False, a))"
  by (simp add: Aircraft_tryUpdate_def tryUpdate_def)

lemma GpsPosition_tryUpdate_eq:
  "GpsPosition_tryUpdate a (DGpsPosition u) =
     (if GpsPosition_canUpdate u a then (True, GpsPosition_assign a u) else (False, a))"
  by (simp add: GpsPosition_tryUpdate_def tryUpdate_def)

lemma Atmosphere_tryUpdate_eq:
  "Atmosphere_tryUpdate a (DAtmosphere u) =
     (if Object_canUpdate u a then (True, Atmosphere_assign a u) else (False, a))"
  by (simp add: Atmosphere_tryUpdate_def tryUpdate_def Object_canUpdate_def object.defs)

lemma Wind_tryUpdate_eq:
  "Wind_tryUpdate a (DWind u) =
     (if Object_canUpdate u a then (True, Object_assign a u) else (False, a))"
  by (simp add: Wind_tryUpdate_def tryUpdate_def)

text \<open>An update with an object of a class the receiver does not accept changes nothing.\<close>

lemma Aircraft_tryUpdate_foreign:
  "(\<And>u. x \<noteq> DAircraft u) \<Longrightarrow> snd (Aircraft_tryUpdate a x) = a"
  by (cases x) (auto simp: Aircraft_tryUpdate_def tryUpdate_def)

lemma GpsPosition_tryUpdate_foreign:
  "(\<And>u. x \<noteq> DGpsPosition u) \<Longrightarrow> snd (GpsPosition_tryUpdate a x) = a"
  by (cases x) (auto simp: GpsPosition_tryUpdate_def tryUpdate_def)

end
