(* ===== verification/Config.thy ===== *)
theory Config
  imports Util_Utility Obj_Objects
begin

text \<open>
  \<open>include/config\<close> and \<open>src/config\<close>: the configuration read at startup. The property tree and its
  reader for the INI format are library code; a record of the three functions that are called stands for
  it.
\<close>

section \<open>Properties\<close>

text \<open>
  \<open>pt_get t path\<close> is the value at a path, if there is one, \<open>pt_child t path\<close> the subtree, and
  \<open>pt_read text\<close> the tree of an INI text, if it is one.
\<close>

record 'p ptree_lib =
  pt_get :: "'p \<Rightarrow> string \<Rightarrow> string option"
  pt_child :: "'p \<Rightarrow> string \<Rightarrow> 'p option"
  pt_read :: "string \<Rightarrow> 'p option"

text \<open>\<open>Properties\<close> wraps a property tree.\<close>

definition get_property :: "'p ptree_lib \<Rightarrow> 'p \<Rightarrow> string \<Rightarrow> string \<Rightarrow> string" where
  "get_property L m_pTree path alternative =
     (let property = (case pt_get L m_pTree path of Some v \<Rightarrow> v | None \<Rightarrow> alternative)
      in if property = [] then alternative else property)"

definition get_propertySection :: "'p ptree_lib \<Rightarrow> 'p \<Rightarrow> string \<Rightarrow> 'p outcome" where
  "get_propertySection L m_pTree sect =
     (case pt_child L m_pTree sect of Some t \<Rightarrow> Ret t | None \<Rightarrow> Throw Out_of_range)"

definition ConfigReader_read :: "'p ptree_lib \<Rightarrow> string \<Rightarrow> 'p outcome" where
  "ConfigReader_read L stream =
     (case pt_read L stream of Some t \<Rightarrow> Ret t | None \<Rightarrow> Throw Invalid_argument)"

section \<open>Keys\<close>

definition SECT_KEY_FALLBACK :: string where "SECT_KEY_FALLBACK = ''fallback''"
definition SECT_KEY_GENERAL :: string where "SECT_KEY_GENERAL = ''general''"
definition SECT_KEY_FILTER :: string where "SECT_KEY_FILTER = ''filter''"
definition SECT_KEY_APRSC :: string where "SECT_KEY_APRSC = ''aprs''"
definition SECT_KEY_SBS :: string where "SECT_KEY_SBS = ''sbs''"
definition SECT_KEY_GPS :: string where "SECT_KEY_GPS = ''gps''"
definition SECT_KEY_WIND :: string where "SECT_KEY_WIND = ''wind''"
definition SECT_KEY_ATMOS :: string where "SECT_KEY_ATMOS = ''atm''"
definition KV_KEY_MAX_DIST :: string where "KV_KEY_MAX_DIST = ''maxDist''"
definition KV_KEY_MAX_HEIGHT :: string where "KV_KEY_MAX_HEIGHT = ''maxHeight''"
definition KV_KEY_HOST :: string where "KV_KEY_HOST = ''host''"
definition KV_KEY_PORT :: string where "KV_KEY_PORT = ''port''"
definition KV_KEY_PRIORITY :: string where "KV_KEY_PRIORITY = ''priority''"
definition KV_KEY_LOGIN :: string where "KV_KEY_LOGIN = ''login''"

definition PATH :: "string \<Rightarrow> string \<Rightarrow> string" where "PATH S K = S @ ''.'' @ K"

definition PATH_FEEDS :: string where "PATH_FEEDS = PATH SECT_KEY_GENERAL ''feeds''"
definition PATH_GND_MODE :: string where "PATH_GND_MODE = PATH SECT_KEY_GENERAL ''gndMode''"
definition PATH_SERVER_PORT :: string where "PATH_SERVER_PORT = PATH SECT_KEY_GENERAL ''serverPort''"
definition PATH_LATITUDE :: string where "PATH_LATITUDE = PATH SECT_KEY_FALLBACK ''latitude''"
definition PATH_LONGITUDE :: string where "PATH_LONGITUDE = PATH SECT_KEY_FALLBACK ''longitude''"
definition PATH_ALTITUDE :: string where "PATH_ALTITUDE = PATH SECT_KEY_FALLBACK ''altitude''"
definition PATH_GEOID :: string where "PATH_GEOID = PATH SECT_KEY_FALLBACK ''geoid''"
definition PATH_PRESSURE :: string where "PATH_PRESSURE = PATH SECT_KEY_FALLBACK ''pressure''"

section \<open>The configuration\<close>

record 'p configuration =
  cfg_position :: gpsPosition
  cfg_atmPressure :: double
  cfg_maxHeight :: int
  cfg_maxDistance :: int
  cfg_serverPort :: uint16
  cfg_groundMode :: bool
  cfg_feedNames :: "string list"
  cfg_feedProperties :: "string \<rightharpoonup> 'p"

definition checkNumber :: "opt_number \<Rightarrow> number outcome" where
  "checkNumber n = (case n of None \<Rightarrow> Throw Invalid_argument | Some x \<Rightarrow> Ret x)"

text \<open>\<open>boost::get<T>\<close> on the variant.\<close>

fun get_dbl :: "number \<Rightarrow> double outcome" where "get_dbl (Dbl v) = Ret v" | "get_dbl _ = Throw Bad_get"
fun get_i32 :: "number \<Rightarrow> int outcome" where "get_i32 (I32 i) = Ret i" | "get_i32 _ = Throw Bad_get"
fun get_u64 :: "number \<Rightarrow> nat outcome" where "get_u64 (U64 n) = Ret n" | "get_u64 _ = Throw Bad_get"

definition number_dbl :: "string \<Rightarrow> double outcome" where
  "number_dbl s = obind (checkNumber (stringToNumber_double s)) get_dbl"

definition number_i32 :: "string \<Rightarrow> int outcome" where
  "number_i32 s = obind (checkNumber (stringToNumber_i32 s)) get_i32"

definition number_u64 :: "string \<Rightarrow> nat outcome" where
  "number_u64 s = obind (checkNumber (stringToNumber_u64 s)) get_u64"

definition resolvePosition :: "'p ptree_lib \<Rightarrow> 'p \<Rightarrow> gpsPosition outcome" where
  "resolvePosition L properties =
     obind (number_dbl (get_property L properties PATH_LATITUDE ''0.0'')) (\<lambda>lat.
     obind (number_dbl (get_property L properties PATH_LONGITUDE ''0.0'')) (\<lambda>lon.
     obind (number_i32 (get_property L properties PATH_ALTITUDE ''0'')) (\<lambda>alt.
     obind (number_dbl (get_property L properties PATH_GEOID ''0.0'')) (\<lambda>geoid.
       Ret (GpsPosition_at \<lparr>latitude = lat, longitude = lon, altitude = alt\<rparr> geoid)))))"

definition resolveServerPort :: "'p ptree_lib \<Rightarrow> 'p \<Rightarrow> uint16 outcome" where
  "resolveServerPort L properties =
     ocatch is_logic_error
       (obind (number_u64 (get_property L properties PATH_SERVER_PORT ''4353'')) (\<lambda>port.
          if port > 65535 then Throw Invalid_argument else Ret (of_nat (port mod 2 ^ 16))))
       (Ret 4353)"

text \<open>Only \<open>std::invalid_argument\<close> is caught here.\<close>

definition resolveFilter :: "'p ptree_lib \<Rightarrow> 'p \<Rightarrow> string \<Rightarrow> int outcome" where
  "resolveFilter L properties key =
     ocatch (\<lambda>e. e = Invalid_argument)
       (obind (number_i32 (get_property L properties (SECT_KEY_FILTER @ ''.'' @ key) ''-1'')) (\<lambda>filter.
          Ret (if filter < 0 then INT32_MAX else filter)))
       (Ret INT32_MAX)"

text \<open>The loop over the names; \<open>emplace\<close> keeps an entry that is already there.\<close>

fun resolve_loop ::
  "'p ptree_lib \<Rightarrow> 'p \<Rightarrow> string list \<Rightarrow> string list \<times> (string \<rightharpoonup> 'p) \<Rightarrow> (string list \<times> (string \<rightharpoonup> 'p)) outcome" where
  "resolve_loop L properties [] (ns, ps) = Ret (ns, ps)"
| "resolve_loop L properties (it # its) (ns, ps) =
     obind
       (ocatch (\<lambda>e. e = Out_of_range)
         (obind (get_propertySection L properties it) (\<lambda>p.
            Ret (ns @ [it], if ps it = None then ps(it \<mapsto> p) else ps)))
         (Ret (ns, ps)))
       (resolve_loop L properties its)"

definition resolveFeeds :: "'p ptree_lib \<Rightarrow> 'p \<Rightarrow> (string list \<times> (string \<rightharpoonup> 'p)) outcome" where
  "resolveFeeds L properties =
     resolve_loop L properties (splitCommaSeparated (get_property L properties PATH_FEEDS [])) ([], Map.empty)"

definition Configuration_new :: "'p ptree_lib \<Rightarrow> string \<Rightarrow> 'p configuration outcome" where
  "Configuration_new L stream =
     ocatch is_std_exception
       (obind (ConfigReader_read L stream) (\<lambda>properties.
        obind (number_dbl (get_property L properties PATH_PRESSURE ''1013.25'')) (\<lambda>press.
        obind (resolvePosition L properties) (\<lambda>pos.
        obind (resolveFilter L properties KV_KEY_MAX_DIST) (\<lambda>dist.
        obind (resolveFilter L properties KV_KEY_MAX_HEIGHT) (\<lambda>height.
        obind (resolveServerPort L properties) (\<lambda>port.
        obind (resolveFeeds L properties) (\<lambda>(names, props).
          Ret \<lparr>cfg_position = pos, cfg_atmPressure = press, cfg_maxHeight = height, cfg_maxDistance = dist,
               cfg_serverPort = port, cfg_groundMode = (get_property L properties PATH_GND_MODE [] \<noteq> []),
               cfg_feedNames = names, cfg_feedProperties = props\<rparr>))))))))
       (Throw Logic_error)"

definition set_groundMode :: "bool \<Rightarrow> 'p configuration \<Rightarrow> 'p configuration" where
  "set_groundMode b cfg = cfg\<lparr>cfg_groundMode := b\<rparr>"

section \<open>What the configuration holds\<close>

lemma number_i32_cases:
  "number_i32 s = (case stringToNumber_i32 s of Some (I32 i) \<Rightarrow> Ret i | _ \<Rightarrow> Throw Invalid_argument)"
  by (auto simp: number_i32_def checkNumber_def stringToNumber_i32_def Let_def split: option.split)

lemma number_u64_cases:
  "number_u64 s = (case stringToNumber_u64 s of Some (U64 n) \<Rightarrow> Ret n | _ \<Rightarrow> Throw Invalid_argument)"
  by (auto simp: number_u64_def checkNumber_def stringToNumber_u64_def Let_def split: option.split)

lemma number_dbl_cases:
  "number_dbl s = (case stringToNumber_double s of Some (Dbl v) \<Rightarrow> Ret v | _ \<Rightarrow> Throw Invalid_argument)"
  by (auto simp: number_dbl_def checkNumber_def stringToNumber_double_def Let_def
      split: option.split prod.split double.split)

lemma number_iffs:
  "number_dbl s = Ret v \<longleftrightarrow> stringToNumber_double s = Some (Dbl v)"
  "number_dbl s = Throw e \<longleftrightarrow> e = Invalid_argument \<and> stringToNumber_double s = None"
  "number_dbl s \<noteq> UB"
  "number_i32 s = Throw e \<longleftrightarrow> e = Invalid_argument \<and> stringToNumber_i32 s = None"
  "number_i32 s \<noteq> UB"
  by (auto simp: number_dbl_def number_i32_def checkNumber_def stringToNumber_double_def stringToNumber_i32_def Let_def
      split: option.split prod.split double.split)

text \<open>The value a filter or the port gets, as a function of the text in the file.\<close>

definition filter_of :: "string \<Rightarrow> int" where
  "filter_of s = (case stringToNumber_i32 s of Some (I32 i) \<Rightarrow> if i < 0 then INT32_MAX else i | _ \<Rightarrow> INT32_MAX)"

definition port_of :: "string \<Rightarrow> nat" where
  "port_of s = (case stringToNumber_u64 s of Some (U64 n) \<Rightarrow> if n \<le> 65535 then n else 4353 | _ \<Rightarrow> 4353)"

lemma resolveFilter_eq:
  "resolveFilter L t key = Ret (filter_of (get_property L t (SECT_KEY_FILTER @ ''.'' @ key) ''-1''))"
  by (simp add: resolveFilter_def filter_of_def number_i32_cases split: option.split number.split)

lemma resolveServerPort_eq:
  "resolveServerPort L t = Ret (of_nat (port_of (get_property L t PATH_SERVER_PORT ''4353'')))"
  by (auto simp: resolveServerPort_def port_of_def number_u64_cases split: option.split number.split)

lemma port_of_bound: "port_of s \<le> 65535"
  by (simp add: port_of_def split: option.split number.split)

lemma stringToNumber_i32_range: "stringToNumber_i32 s = Some (I32 i) \<Longrightarrow> in_i32 i"
  by (auto simp: stringToNumber_i32_def Let_def split: option.splits if_splits)

lemma filter_of_range: "0 \<le> filter_of s \<and> filter_of s \<le> INT32_MAX"
  using stringToNumber_i32_range [of s]
  by (auto simp: filter_of_def INT32_MAX_def in_i32_def split: option.split number.split)

text \<open>
  Whatever the file says, a filter gets a value between zero and the largest 32-bit integer: the number
  given, if that is one and not negative, and else the largest value, which disables the filter.
\<close>

lemma resolveFilter_range:
  "\<exists>v. resolveFilter L t key = Ret v \<and> 0 \<le> v \<and> v \<le> 2 ^ 31 - 1 \<and>
     (let s = get_property L t (SECT_KEY_FILTER @ ''.'' @ key) ''-1''
      in if \<exists>i \<ge> 0. stringToNumber_i32 s = Some (I32 i) then stringToNumber_i32 s = Some (I32 v) else v = 2 ^ 31 - 1)"
  using filter_of_range [of "get_property L t (SECT_KEY_FILTER @ ''.'' @ key) ''-1''"]
  by (auto simp: resolveFilter_eq Let_def filter_of_def INT32_MAX_def split: option.splits number.splits)

text \<open>
  The server always gets a port: the number given if it is one and at most 65535, which then is stored without
  loss in 16 bits, and 4353 otherwise.
\<close>

lemma resolveServerPort_total:
  "\<exists>p. resolveServerPort L t = Ret p \<and>
     (let s = get_property L t PATH_SERVER_PORT ''4353''
      in if \<exists>n \<le> 65535. stringToNumber_u64 s = Some (U64 n) then stringToNumber_u64 s = Some (U64 (unat p)) else p = 4353)"
proof -
  have "unat (word_of_nat n :: 16 word) = n" if "n \<le> 65535" for n
    using that by (simp add: unat_of_nat take_bit_nat_eq_self)
  then show ?thesis
    by (auto simp: resolveServerPort_eq Let_def port_of_def split: option.split number.split)
qed

text \<open>The sections of the listed feeds.\<close>

lemma resolve_loop_eq:
  "resolve_loop L t its (ns, ps) =
     Ret (ns @ filter (\<lambda>n. pt_child L t n \<noteq> None) its,
          \<lambda>n. if ps n = None \<and> n \<in> set its then pt_child L t n else ps n)"
proof (induction its arbitrary: ns ps)
  case (Cons it its)
  show ?case
    by (cases "pt_child L t it") (auto simp: get_propertySection_def Cons.IH fun_eq_iff)
qed auto

definition listed :: "'p ptree_lib \<Rightarrow> 'p \<Rightarrow> string list" where
  "listed L t = filter (\<lambda>n. pt_child L t n \<noteq> None) (splitCommaSeparated (get_property L t PATH_FEEDS []))"

lemma resolveFeeds_eq:
  "resolveFeeds L t = Ret (listed L t, \<lambda>n. if n \<in> set (listed L t) then pt_child L t n else None)"
  by (auto simp: resolveFeeds_def resolve_loop_eq listed_def fun_eq_iff)

lemma resolvePosition_fails:
  "resolvePosition L t = Throw e \<Longrightarrow> e = Invalid_argument \<and>
     (stringToNumber_double (get_property L t PATH_LATITUDE ''0.0'') = None \<or>
      stringToNumber_double (get_property L t PATH_LONGITUDE ''0.0'') = None \<or>
      stringToNumber_i32 (get_property L t PATH_ALTITUDE ''0'') = None \<or>
      stringToNumber_double (get_property L t PATH_GEOID ''0.0'') = None)"
  by (auto simp: resolvePosition_def obind_eq_Throw_conv number_iffs)

lemma resolvePosition_defined: "resolvePosition L t \<noteq> UB"
  by (simp add: resolvePosition_def obind_eq_UB_conv number_iffs)

lemma Configuration_new_result:
  "case Configuration_new L stream of
     Ret cfg \<Rightarrow> \<exists>t. pt_read L stream = Some t \<and>
       stringToNumber_double (get_property L t PATH_PRESSURE ''1013.25'') = Some (Dbl (cfg_atmPressure cfg)) \<and>
       resolvePosition L t = Ret (cfg_position cfg) \<and>
       resolveFilter L t KV_KEY_MAX_DIST = Ret (cfg_maxDistance cfg) \<and>
       resolveFilter L t KV_KEY_MAX_HEIGHT = Ret (cfg_maxHeight cfg) \<and>
       resolveServerPort L t = Ret (cfg_serverPort cfg) \<and>
       cfg_feedNames cfg = filter (\<lambda>n. pt_child L t n \<noteq> None) (splitCommaSeparated (get_property L t PATH_FEEDS [])) \<and>
       (\<forall>n. cfg_feedProperties cfg n = (if n \<in> set (cfg_feedNames cfg) then pt_child L t n else None)) \<and>
       cfg_groundMode cfg = (get_property L t PATH_GND_MODE [] \<noteq> [])
   | Throw e \<Rightarrow> e = Logic_error \<and>
       (pt_read L stream = None \<or>
        (\<exists>t. pt_read L stream = Some t \<and>
          (stringToNumber_double (get_property L t PATH_PRESSURE ''1013.25'') = None \<or>
           stringToNumber_double (get_property L t PATH_LATITUDE ''0.0'') = None \<or>
           stringToNumber_double (get_property L t PATH_LONGITUDE ''0.0'') = None \<or>
           stringToNumber_i32 (get_property L t PATH_ALTITUDE ''0'') = None \<or>
           stringToNumber_double (get_property L t PATH_GEOID ''0.0'') = None)))
   | UB \<Rightarrow> False"
proof (cases "pt_read L stream")
  case None
  then show ?thesis by (simp add: Configuration_new_def ConfigReader_read_def)
next
  case (Some t)
  show ?thesis
  proof (cases "number_dbl (get_property L t PATH_PRESSURE ''1013.25'')")
    case (Ret press)
    show ?thesis
    proof (cases "resolvePosition L t")
      case r: (Ret pos)
      show ?thesis
        using Some Ret r number_iffs(1) [THEN iffD1, OF Ret]
        by (auto simp: Configuration_new_def ConfigReader_read_def resolveFilter_eq resolveServerPort_eq
            resolveFeeds_eq listed_def)
    next
      case (Throw e)
      then show ?thesis
        using Some Ret resolvePosition_fails [OF Throw] by (auto simp: Configuration_new_def ConfigReader_read_def)
    qed (simp add: resolvePosition_defined)
  next
    case (Throw e)
    then have "e = Invalid_argument" "stringToNumber_double (get_property L t PATH_PRESSURE ''1013.25'') = None"
      by (simp_all add: number_iffs)
    then show ?thesis using Some Throw by (auto simp: Configuration_new_def ConfigReader_read_def)
  qed (simp add: number_iffs)
qed

lemma Configuration_new_cases: "(\<exists>cfg. Configuration_new L s = Ret cfg) \<or> Configuration_new L s = Throw Logic_error"
  using Configuration_new_result [of L s] by (auto split: outcome.splits)


section \<open>The list of the feeds\<close>

text \<open>Names separated by commas, with blanks around them.\<close>

fun comma_join :: "string list \<Rightarrow> string" where
  "comma_join [] = []"
| "comma_join [x] = x"
| "comma_join (x # y # xs) = x @ '','' @ comma_join (y # xs)"

definition blanks :: "nat \<Rightarrow> string" where "blanks n = replicate n (CHR '' '')"

definition is_name :: "string \<Rightarrow> bool" where
  "is_name n \<longleftrightarrow> n \<noteq> [] \<and> CHR '','' \<notin> set n \<and> hd n \<noteq> CHR '' '' \<and> last n \<noteq> CHR '' ''"

lemma trimString_blanks:
  assumes "is_name n" "length (blanks i @ n @ blanks j) < npos"
  shows "trimString (blanks i @ n @ blanks j) = n"
proof -
  obtain c cs where c: "n = c # cs" "c \<noteq> CHR '' ''" using assms(1) by (cases n) (auto simp: is_name_def)
  obtain d ds where d: "n = ds @ [d]" "d \<noteq> CHR '' ''"
    using assms(1) by (cases n rule: rev_cases) (auto simp: is_name_def)
  have "find_first_not_of (blanks i @ n @ blanks j) (CHR '' '') = i"
    using index_where_append [of "blanks i" "(\<noteq>) (CHR '' '')" c "cs @ blanks j"] c
    by (simp add: find_first_not_of_def blanks_def)
  moreover have "find_last_not_of (n @ blanks j) (CHR '' '') = length ds"
    using index_where_append [of "blanks j" "(\<noteq>) (CHR '' '')" d "rev ds"] d
    by (simp add: find_last_not_of_def blanks_def rev_replicate)
  moreover have "i < npos" "length ds < npos" using assms(2) d(1) by (simp_all add: blanks_def)
  ultimately show ?thesis using d(1) by (simp add: trimString_def Let_def blanks_def)
qed

lemma split_item:
  assumes "CHR '','' \<notin> set x"
  shows "splitCommaSeparated (x @ CHR '','' # ys) = trimString x # splitCommaSeparated ys"
    and "x \<noteq> [] \<Longrightarrow> splitCommaSeparated x = [trimString x]"
proof -
  have "takeWhile (\<lambda>c. c \<noteq> CHR '','') (x @ zs) = x @ takeWhile (\<lambda>c. c \<noteq> CHR '','') zs"
    "dropWhile (\<lambda>c. c \<noteq> CHR '','') (x @ zs) = dropWhile (\<lambda>c. c \<noteq> CHR '','') zs" for zs
    using assms by (auto intro!: takeWhile_append2 dropWhile_append2)
  from this [of "CHR '','' # ys"]
  show "splitCommaSeparated (x @ CHR '','' # ys) = trimString x # splitCommaSeparated ys"
    by (subst splitCommaSeparated.simps) (simp add: Let_def)
  have tw: "takeWhile (\<lambda>c. c \<noteq> CHR '','') x = x" "dropWhile (\<lambda>c. c \<noteq> CHR '','') x = []"
    using assms by (auto simp: takeWhile_eq_all_conv dropWhile_eq_Nil_conv)
  show "x \<noteq> [] \<Longrightarrow> splitCommaSeparated x = [trimString x]"
    by (subst splitCommaSeparated.simps) (simp add: Let_def tw)
qed

text \<open>
  Splitting undoes joining: a list of names, written with commas between them and any number of blanks around each, is read
  back as these names in their order.
\<close>

lemma splitCommaSeparated_join:
  assumes "\<forall>(i, n, j) \<in> set xs. is_name n"
    and "length (comma_join (map (\<lambda>(i, n, j). blanks i @ n @ blanks j) xs)) < npos"
  shows "splitCommaSeparated (comma_join (map (\<lambda>(i, n, j). blanks i @ n @ blanks j) xs)) = map (\<lambda>(i, n, j). n) xs"
  using assms
proof (induction xs rule: induct_list012)
  case 1
  show ?case by (subst splitCommaSeparated.simps) simp
next
  case (2 x)
  obtain i n j where x: "x = (i, n, j)" by (cases x)
  then have n: "is_name n" "length (blanks i @ n @ blanks j) < npos" using 2 by simp_all
  have "CHR '','' \<notin> set (blanks i @ n @ blanks j)" "blanks i @ n @ blanks j \<noteq> []"
    using n(1) by (auto simp: is_name_def blanks_def)
  then show ?case using split_item(2) trimString_blanks [OF n] x by simp
next
  case (3 x y zs)
  obtain i n j where x: "x = (i, n, j)" by (cases x)
  then have n: "is_name n" "length (blanks i @ n @ blanks j) < npos" using 3 by simp_all
  have "CHR '','' \<notin> set (blanks i @ n @ blanks j)" using n(1) by (auto simp: is_name_def blanks_def)
  then show ?case using split_item(1) [of "blanks i @ n @ blanks j"] trimString_blanks [OF n] x 3 by simp
qed

end
