(* ===== verification/Client.thy ===== *)
theory Client
  imports VFRB_Prelude
begin

text \<open>
  \<open>include/client\<close> and \<open>src/client\<close>: the clients that connect to the servers of the feeds. A client is a
  state machine driven by completion handlers. The connector (\<open>ConnectorImplBoost\<close>) is modelled down to
  the operations it starts; when an operation completes, and with which result, is up to the network
  library. One mutex serialises the handlers, so each is one step.
\<close>

section \<open>The connector\<close>

record endpoint =
  host :: string
  port :: string

datatype errorCode = SUCCESS | FAILURE

text \<open>The handlers that can be bound to an operation, named after the functions.\<close>

datatype callback =
    HandleConnect
  | HandleTimedConnect
  | HandleRead
  | HandleLogin
  | HandleSendKeepAlive
  | HandleBeacon
  | HandleWatch
  | HandleUnwatch
  | CheckDeadline

text \<open>The asynchronous operations of the network library the connector starts.\<close>

datatype io_op = Resolve endpoint | Connect | Read | Write string | Wait

text \<open>
  A started operation whose handler has not been called. \<open>p_late\<close> tells of a cancelled wait that the timer had run off
  before.
\<close>

record pending =
  p_op :: io_op
  p_cb :: callback
  p_cancelled :: bool
  p_late :: bool

text \<open>The expiry of a timer, a time in microseconds or one of the special values; a timer is made without an expiry.\<close>

datatype expiry = not_a_date_time | At nat | pos_infin

abbreviation (input) seconds :: "nat \<Rightarrow> nat" where "seconds t \<equiv> t * 1000000"

text \<open>\<open>co_expiry\<close> is the expiry of \<open>m_timer\<close>, \<open>co_now\<close> what the clock shows when an operation of the connector reads it.\<close>

record connector =
  co_open :: bool
  co_stopped :: bool
  co_pending :: "pending list"
  co_expiry :: expiry
  co_now :: nat

definition Connector_new :: connector where
  "Connector_new =
     \<lparr>co_open = False, co_stopped = False, co_pending = [], co_expiry = not_a_date_time, co_now = 0\<rparr>"

definition timerExpired :: "connector \<Rightarrow> bool" where
  "timerExpired c = (case co_expiry c of At t \<Rightarrow> t \<le> co_now c | _ \<Rightarrow> False)"

definition start_op :: "io_op \<Rightarrow> callback \<Rightarrow> connector \<Rightarrow> connector" where
  "start_op x cb c = 
     c\<lparr>co_pending := co_pending c @ [\<lparr>p_op = x, p_cb = cb, p_cancelled = False, p_late = False\<rparr>]\<rparr>"

definition cancel :: "(io_op \<Rightarrow> bool) \<Rightarrow> connector \<Rightarrow> connector" where
  "cancel which c =
     c\<lparr>co_pending := map (\<lambda>p. if which (p_op p) \<and> \<not> p_cancelled p
       then p\<lparr>p_cancelled := True, p_late := timerExpired c\<rparr> else p) (co_pending c)\<rparr>"

fun is_wait :: "io_op \<Rightarrow> bool" where "is_wait Wait = True" | "is_wait _ = False"

fun on_socket :: "io_op \<Rightarrow> bool" where
  "on_socket Read = True" | "on_socket (Write _) = True" | "on_socket _ = False"

text \<open>Setting the expiry of a timer cancels the waits on it.\<close>

definition expires_at :: "expiry \<Rightarrow> connector \<Rightarrow> connector" where
  "expires_at x c = (cancel is_wait c)\<lparr>co_expiry := x\<rparr>"

definition resetTimer :: "nat \<Rightarrow> connector \<Rightarrow> connector" where
  "resetTimer vTimeout c = expires_at (At (co_now c + seconds vTimeout)) c"

definition Connector_close :: "connector \<Rightarrow> connector" where
  "Connector_close c =
     (let c1 = cancel is_wait (expires_at pos_infin c)
      in if co_open c1 then (cancel on_socket c1)\<lparr>co_open := False\<rparr> else c1)"

definition Connector_stop :: "connector \<Rightarrow> connector" where
  "Connector_stop c = (Connector_close c)\<lparr>co_stopped := True\<rparr>"

definition onConnect :: "endpoint \<Rightarrow> callback \<Rightarrow> connector \<Rightarrow> connector" where
  "onConnect ep cb c = start_op (Resolve ep) cb c"

definition onRead :: "callback \<Rightarrow> connector \<Rightarrow> connector" where
  "onRead cb c = (if co_open c then start_op Read cb c else c)"

definition onWrite :: "string \<Rightarrow> callback \<Rightarrow> connector \<Rightarrow> connector" where
  "onWrite msg cb c = (if co_open c then start_op (Write msg) cb c else c)"

definition onTimeout :: "callback \<Rightarrow> nat \<Rightarrow> connector \<Rightarrow> connector" where
  "onTimeout cb timeout c =
     start_op Wait cb (if timeout > 0 then resetTimer timeout c else c)"

section \<open>The clients\<close>

abbreviation (input) CLIENT_CONNECT_WAIT_TIMEVAL :: nat where "CLIENT_CONNECT_WAIT_TIMEVAL \<equiv> 120"
abbreviation (input) APRSCCLIENT_BEACON_INTERVAL :: nat where "APRSCCLIENT_BEACON_INTERVAL \<equiv> 600"
abbreviation (input) WINDCLIENT_RECEIVE_TIMEOUT :: nat where "WINDCLIENT_RECEIVE_TIMEOUT \<equiv> 5"

definition C_CON_WAIT_TIMEVAL :: nat where "C_CON_WAIT_TIMEVAL = CLIENT_CONNECT_WAIT_TIMEVAL"
definition AC_BEACON_INT :: nat where "AC_BEACON_INT = APRSCCLIENT_BEACON_INTERVAL"
definition WC_RCV_TIMEOUT :: nat where "WC_RCV_TIMEOUT = WINDCLIENT_RECEIVE_TIMEOUT"

datatype state = NONE | CONNECTING | RUNNING | STOPPING

text \<open>The derived classes; the APRS client also has its login string.\<close>

datatype client_class = AprscClient string | SbsClient | GpsdClient | SensorClient

text \<open>\<open>'f\<close> stands for the subscribed feeds.\<close>

record 'f client =
  cl_class :: client_class
  cl_endpoint :: endpoint
  cl_connector :: connector
  cl_state :: state
  cl_feeds :: "'f list"

definition crlf_end :: string where "crlf_end = [CHR 0x0D, CHR 0x0A]"

definition Client_new :: "client_class \<Rightarrow> endpoint \<Rightarrow> 'f client" where
  "Client_new k ep =
     \<lparr>cl_class = k, cl_endpoint = ep, cl_connector = Connector_new, cl_state = NONE, cl_feeds = []\<rparr>"

definition AprscClient_new :: "endpoint \<Rightarrow> string \<Rightarrow> 'f client" where
  "AprscClient_new ep login = Client_new (AprscClient (login @ crlf_end)) ep"

abbreviation (input) SbsClient_new :: "endpoint \<Rightarrow> 'f client" where "SbsClient_new ep \<equiv> Client_new SbsClient ep"
abbreviation (input) GpsdClient_new :: "endpoint \<Rightarrow> 'f client" where "GpsdClient_new ep \<equiv> Client_new GpsdClient ep"
abbreviation (input) SensorClient_new :: "endpoint \<Rightarrow> 'f client" where "SensorClient_new ep \<equiv> Client_new SensorClient ep"

definition Client_subscribe :: "'f \<Rightarrow> 'f client \<Rightarrow> 'f client" where
  "Client_subscribe f c = c\<lparr>cl_feeds := cl_feeds c @ [f]\<rparr>"

text \<open>Applying an operation of the connector.\<close>

definition use :: "(connector \<Rightarrow> connector) \<Rightarrow> 'f client \<Rightarrow> 'f client" where
  "use f c = c\<lparr>cl_connector := f (cl_connector c)\<rparr>"

definition connect :: "'f client \<Rightarrow> 'f client" where
  "connect c = use (onConnect (cl_endpoint c) HandleConnect) (c\<lparr>cl_state := CONNECTING\<rparr>)"

text \<open>The part of \<open>run\<close> up to the event loop.\<close>

definition Client_run :: "'f client \<Rightarrow> 'f client" where
  "Client_run c = (if cl_state c = NONE then connect c else c)"

definition timedConnect :: "'f client \<Rightarrow> 'f client" where
  "timedConnect c = use (onTimeout HandleTimedConnect C_CON_WAIT_TIMEVAL) c"

definition reconnect :: "'f client \<Rightarrow> 'f client" where
  "reconnect c =
     (if cl_state c \<noteq> STOPPING
      then timedConnect (use Connector_close (c\<lparr>cl_state := CONNECTING\<rparr>)) else c)"

definition base_stop :: "'f client \<Rightarrow> 'f client" where
  "base_stop c =
     (if cl_state c = RUNNING \<or> cl_state c = CONNECTING
      then use Connector_stop (c\<lparr>cl_state := STOPPING\<rparr>) else c)"

definition unwatch_request :: string where
  "unwatch_request = ''?WATCH={'' @ [CHR 0x22] @ ''enable'' @ [CHR 0x22] @ '':false}'' @ crlf_end"

definition watch_request :: string where
  "watch_request = ''?WATCH={'' @ [CHR 0x22] @ ''enable'' @ [CHR 0x22] @ '':true,'' @ [CHR 0x22] @
     ''nmea'' @ [CHR 0x22] @ '':true}'' @ crlf_end"

text \<open>\<open>GpsdClient\<close> overrides \<open>stop\<close> and waits a moment for its message to be written.\<close>

definition Client_stop :: "'f client \<Rightarrow> 'f client" where
  "Client_stop c =
     (if cl_class c = GpsdClient \<and> cl_state c = RUNNING
      then base_stop (use (onWrite unwatch_request HandleUnwatch) c) else base_stop c)"

definition scheduleStop :: "'f client \<Rightarrow> 'f client" where
  "scheduleStop c = Client_stop c"

text \<open>\<open>SensorClient\<close> overrides \<open>read\<close>.\<close>

definition base_read :: "'f client \<Rightarrow> 'f client" where
  "base_read c = use (onRead HandleRead) c"

definition Client_read :: "'f client \<Rightarrow> 'f client" where
  "Client_read c =
     (if cl_class c = SensorClient then base_read (use (resetTimer WC_RCV_TIMEOUT) c) else base_read c)"

definition handleTimedConnect :: "errorCode \<Rightarrow> 'f client \<Rightarrow> 'f client" where
  "handleTimedConnect error c = (if error = SUCCESS then connect c else scheduleStop c)"

text \<open>The loop over the feeds; \<open>proc\<close> tells whether a feed wants more.\<close>

fun feed_loop :: "('f \<Rightarrow> string \<Rightarrow> bool) \<Rightarrow> string \<Rightarrow> 'f list \<Rightarrow> 'f client \<Rightarrow> 'f client" where
  "feed_loop proc response [] c = c"
| "feed_loop proc response (f # fs) c =
     feed_loop proc response fs (if \<not> proc f response then Client_stop c else c)"

definition handleRead ::
  "('f \<Rightarrow> string \<Rightarrow> bool) \<Rightarrow> errorCode \<Rightarrow> string \<Rightarrow> 'f client \<Rightarrow> 'f client" where
  "handleRead proc error response c =
     (if cl_state c = RUNNING then
        if error = SUCCESS then Client_read (feed_loop proc response (cl_feeds c) c) else reconnect c
      else c)"

definition sendKeepAlive :: "'f client \<Rightarrow> 'f client" where
  "sendKeepAlive c = use (onTimeout HandleSendKeepAlive AC_BEACON_INT) c"

text \<open>The four versions of \<open>handleConnect\<close>, and the virtual function.\<close>

definition AprscClient_handleConnect :: "string \<Rightarrow> errorCode \<Rightarrow> 'f client \<Rightarrow> 'f client" where
  "AprscClient_handleConnect m_login error c =
     (if cl_state c = CONNECTING then
        if error = SUCCESS then use (onWrite m_login HandleLogin) c else reconnect c
      else c)"

definition SbsClient_handleConnect :: "errorCode \<Rightarrow> 'f client \<Rightarrow> 'f client" where
  "SbsClient_handleConnect error c =
     (if cl_state c = CONNECTING then
        if error = SUCCESS then Client_read (c\<lparr>cl_state := RUNNING\<rparr>) else reconnect c
      else c)"

definition GpsdClient_handleConnect :: "errorCode \<Rightarrow> 'f client \<Rightarrow> 'f client" where
  "GpsdClient_handleConnect error c =
     (if cl_state c = CONNECTING then
        if error = SUCCESS then use (onWrite watch_request HandleWatch) c else reconnect c
      else c)"

definition SensorClient_handleConnect :: "errorCode \<Rightarrow> 'f client \<Rightarrow> 'f client" where
  "SensorClient_handleConnect error c =
     (if cl_state c = CONNECTING then
        if error = SUCCESS
        then Client_read (use (onTimeout CheckDeadline WC_RCV_TIMEOUT) (c\<lparr>cl_state := RUNNING\<rparr>))
        else reconnect c
      else c)"

definition handleConnect :: "errorCode \<Rightarrow> 'f client \<Rightarrow> 'f client" where
  "handleConnect error c =
     (case cl_class c of
        AprscClient m_login \<Rightarrow> AprscClient_handleConnect m_login error c
      | SbsClient \<Rightarrow> SbsClient_handleConnect error c
      | GpsdClient \<Rightarrow> GpsdClient_handleConnect error c
      | SensorClient \<Rightarrow> SensorClient_handleConnect error c)"

definition handleLogin :: "errorCode \<Rightarrow> 'f client \<Rightarrow> 'f client" where
  "handleLogin error c =
     (if cl_state c = CONNECTING then
        if error = SUCCESS then Client_read (sendKeepAlive (c\<lparr>cl_state := RUNNING\<rparr>)) else reconnect c
      else c)"

definition keep_alive_beacon :: string where
  "keep_alive_beacon = ''#keep-alive beacon'' @ crlf_end"

definition handleSendKeepAlive :: "errorCode \<Rightarrow> 'f client \<Rightarrow> 'f client" where
  "handleSendKeepAlive error c =
     (if cl_state c = RUNNING then
        if error = SUCCESS then sendKeepAlive (use (onWrite keep_alive_beacon HandleBeacon) c)
        else sendKeepAlive c
      else c)"

definition handleBeacon :: "errorCode \<Rightarrow> 'f client \<Rightarrow> 'f client" where
  "handleBeacon error c = (if cl_state c = RUNNING \<and> error \<noteq> SUCCESS then reconnect c else c)"

definition handleWatch :: "errorCode \<Rightarrow> 'f client \<Rightarrow> 'f client" where
  "handleWatch error c =
     (if cl_state c = CONNECTING then
        if error = SUCCESS then Client_read (c\<lparr>cl_state := RUNNING\<rparr>) else reconnect c
      else c)"

definition checkDeadline :: "errorCode \<Rightarrow> 'f client \<Rightarrow> 'f client" where
  "checkDeadline error c =
     (if cl_state c = RUNNING then
        if error = SUCCESS then reconnect c else use (onTimeout CheckDeadline 0) c
      else c)"

text \<open>Calling the bound handler; only the read handler looks at the received line.\<close>

fun dispatch :: "('f \<Rightarrow> string \<Rightarrow> bool) \<Rightarrow> callback \<Rightarrow> errorCode \<Rightarrow> string \<Rightarrow> 'f client \<Rightarrow> 'f client" where
  "dispatch proc HandleConnect e r = handleConnect e"
| "dispatch proc HandleTimedConnect e r = handleTimedConnect e"
| "dispatch proc HandleRead e r = handleRead proc e r"
| "dispatch proc HandleLogin e r = handleLogin e"
| "dispatch proc HandleSendKeepAlive e r = handleSendKeepAlive e"
| "dispatch proc HandleBeacon e r = handleBeacon e"
| "dispatch proc HandleWatch e r = handleWatch e"
| "dispatch proc HandleUnwatch e r = id"
| "dispatch proc CheckDeadline e r = checkDeadline e"

section \<open>The running client\<close>

text \<open>
  What the network library may answer: a wait ends successfully when the timer runs off and fails when it was cancelled before;
  if both happened it may end either way. Everything else can end at any time, and what was cancelled may still have
  been completed before.
\<close>

definition may_answer :: "connector \<Rightarrow> pending \<Rightarrow> errorCode \<Rightarrow> bool" where
  "may_answer c p e \<longleftrightarrow>
     (p_op p = Wait \<longrightarrow>
       (if p_cancelled p then e = SUCCESS \<longrightarrow> p_late p else e = SUCCESS \<and> timerExpired c))"

definition remove_pending :: "pending \<Rightarrow> 'f client \<Rightarrow> 'f client" where
  "remove_pending p c = use (\<lambda>k. k\<lparr>co_pending := remove1 p (co_pending k)\<rparr>) c"

text \<open>
  The connector's own handlers: a resolved host is connected to, a connection opens the socket; then
  the client's handler is called.
\<close>

definition complete ::
  "('f \<Rightarrow> string \<Rightarrow> bool) \<Rightarrow> pending \<Rightarrow> errorCode \<Rightarrow> string \<Rightarrow> 'f client \<Rightarrow> 'f client" where
  "complete proc p e response c =
     (let c1 = remove_pending p c in
      case p_op p of
        Resolve ep \<Rightarrow>
          if e = SUCCESS then use (start_op Connect (p_cb p)) c1 else dispatch proc (p_cb p) e response c1
      | Connect \<Rightarrow>
          dispatch proc (p_cb p) e response (if e = SUCCESS then use (\<lambda>k. k\<lparr>co_open := True\<rparr>) c1 else c1)
      | _ \<Rightarrow> dispatch proc (p_cb p) e response c1)"

text \<open>
  The event loop returns when it was stopped or has nothing left to wait for; an event loop that has
  returned stays stopped, and \<open>run\<close> resets the state.
\<close>

definition loop_ended :: "'f client \<Rightarrow> 'f client" where
  "loop_ended c = (use (\<lambda>k. k\<lparr>co_stopped := True\<rparr>) c)\<lparr>cl_state := NONE\<rparr>"

text \<open>The clock goes on.\<close>

definition elapse :: "nat \<Rightarrow> 'f client \<Rightarrow> 'f client" where
  "elapse d c = use (\<lambda>k. k\<lparr>co_now := co_now k + d\<rparr>) c"

text \<open>
  One thread runs the event loop, others may stop the client or subscribe feeds. A handler that was
  already picked up when the client is stopped still runs, therefore completions go on in
  \<open>STOPPING\<close>.
\<close>

inductive cl_step :: "('f \<Rightarrow> string \<Rightarrow> bool) \<Rightarrow> 'f client \<Rightarrow> 'f client \<Rightarrow> bool" for proc where
  run: "cl_step proc c (Client_run c)"
| completed: "p \<in> set (co_pending (cl_connector c)) \<Longrightarrow>
     \<not> co_stopped (cl_connector c) \<or> cl_state c = STOPPING \<Longrightarrow> may_answer (cl_connector c) p e \<Longrightarrow>
     cl_step proc c (complete proc p e response c)"
| ended: "cl_state c \<noteq> NONE \<Longrightarrow> co_stopped (cl_connector c) \<or> co_pending (cl_connector c) = [] \<Longrightarrow>
     cl_step proc c (loop_ended c)"
| stop: "cl_step proc c (scheduleStop c)"
| subscribe: "cl_step proc c (Client_subscribe f c)"
| elapse: "cl_step proc c (elapse d c)"

inductive_cases cl_stepE: "cl_step proc c c'"

end
