(* ===== verification/Util_Math.thy ===== *)
theory Util_Math
  imports Cpp_String
begin

unbundle bit_operations_syntax

text \<open>
  \<open>include/util/math.hpp\<close>: unit factors, angle and position conversions, rounding to integers,
  the ICAO height formula and the NMEA checksum.
\<close>

section \<open>Definitions\<close>

definition KTS_2_MS :: double where "KTS_2_MS = dlit 0.514444"
definition MS_2_KMH :: double where "MS_2_KMH = dlit 3.6"
definition FPM_2_MS :: double where "FPM_2_MS = dlit 0.00508"
definition FEET_2_M :: double where "FEET_2_M = dlit 0.3048"

text \<open>\<open>PI = std::acos(-1.0)\<close>.\<close>

definition PI :: double where "PI = fin_round False pi"

definition radian :: "double \<Rightarrow> double" where
  "radian deg = d_div (d_mul deg PI) (dlit 180)"

definition degree_of :: "double \<Rightarrow> double" where
  "degree_of rad = d_div (d_mul rad (dlit 180)) PI"

definition doubleToInt :: "double \<Rightarrow> int outcome" where
  "doubleToInt v =
     (if d_le (dlit 0) v then d_to_i32 (d_add v (dlit 0.5)) else d_to_i32 (d_sub v (dlit 0.5)))"

definition dmToDeg :: "double \<Rightarrow> double" where
  "dmToDeg degMin =
     (let absDm = d_abs (d_div degMin (dlit 100));
          d = d_floor absDm;
          m = d_div (d_mul (d_sub absDm d) (dlit 100)) (dlit 60)
      in d_add d m)"

definition icaoHeight :: "double \<Rightarrow> int outcome" where
  "icaoHeight pressure =
     doubleToInt
       (d_div (d_mul (dlit 288.15)
                (d_sub (dlit 1) (d_pow (d_div pressure (dlit 1013.25)) (dlit 0.190295))))
              (dlit 0.0065))"

text \<open>
  \<open>char\<close> is signed on the platforms the program is built for, so the conversion to
  \<open>std::int32_t\<close> extends the sign.
\<close>

definition char_i32 :: "char \<Rightarrow> int" where
  "char_i32 c = (let n = int (of_char c) in if n < 128 then n else n - 256)"

text \<open>
  The loop of \<open>math::checksum\<close>: it starts behind the \<open>$\<close> and stops at the length, at a
  \<open>*\<close> or at a NUL.
\<close>

fun checksum_loop :: "int \<Rightarrow> string \<Rightarrow> int" where
  "checksum_loop csum [] = csum"
| "checksum_loop csum (c # cs) =
     (if c = CHR ''*'' \<or> c = CHR 0x00 then csum else checksum_loop (csum XOR char_i32 c) cs)"

definition checksum :: "string \<Rightarrow> nat \<Rightarrow> int" where
  "checksum sentence len = checksum_loop 0 (drop 1 (take len sentence))"

section \<open>The checksum\<close>

text \<open>Printable sentences only hold 7-bit characters.\<close>

definition ascii :: "char \<Rightarrow> bool" where
  "ascii c \<longleftrightarrow> (of_char c :: nat) < 128"

lemma char_i32_ascii: "ascii c \<Longrightarrow> 0 \<le> char_i32 c \<and> char_i32 c < 128"
  by (simp add: ascii_def char_i32_def)

lemma xor_int_bound:
  assumes "0 \<le> a" "a < 2 ^ n" "0 \<le> b" "b < (2::int) ^ n"
  shows "0 \<le> a XOR b" "a XOR b < 2 ^ n"
  using assms by (simp_all add: XOR_upper)

lemma checksum_loop_ascii:
  assumes "\<forall>c \<in> set (takeWhile (\<lambda>c. c \<noteq> CHR ''*'' \<and> c \<noteq> CHR 0x00) cs). ascii c"
    and "0 \<le> csum" "csum < 128"
  shows "0 \<le> checksum_loop csum cs \<and> checksum_loop csum cs < 128"
  using assms
proof (induction csum cs rule: checksum_loop.induct)
  case (2 csum c cs)
  show ?case
  proof (cases "c = CHR ''*'' \<or> c = CHR 0x00")
    case False
    with "2.prems" have "ascii c" by auto
    then have "0 \<le> csum XOR char_i32 c" "csum XOR char_i32 c < 128"
      using char_i32_ascii [of c] xor_int_bound [of csum 7 "char_i32 c"] "2.prems" by simp_all
    with False "2.prems" "2.IH" show ?thesis by auto
  qed (use "2.prems" in auto)
qed simp

lemma checksum_loop_append:
  assumes "\<forall>c \<in> set xs. c \<noteq> CHR ''*'' \<and> c \<noteq> CHR 0x00"
  shows "checksum_loop csum (xs @ CHR ''*'' # ys) = checksum_loop csum xs"
  using assms by (induction csum xs rule: checksum_loop.induct) auto

lemma checksum_loop_nul:
  assumes "\<forall>c \<in> set xs. c \<noteq> CHR ''*'' \<and> c \<noteq> CHR 0x00"
  shows "checksum_loop csum (xs @ CHR 0x00 # ys) = checksum_loop csum xs"
  using assms by (induction csum xs rule: checksum_loop.induct) auto

end
