(* ===== verification/Data_Processor.thy ===== *)
theory Data_Processor
  imports Obj_Objects Util_Math
begin

text \<open>
  \<open>include/data/processor\<close> and \<open>src/data/processor\<close>: the processors that turn aircrafts and
  GPS positions into NMEA sentences. All members are kept, so that a processor is a state that
  \<open>process\<close> transforms; a computation that converts a floating-point value to an integer may end
  in undefined behaviour.
\<close>

section \<open>The base class\<close>

text \<open>The bytes of \<open>m_buffer\<close> before its NUL, and the sentence under construction.\<close>

record processor =
  m_buffer :: string
  m_processed :: string

definition BUFFER_SIZE :: nat where "BUFFER_SIZE = 4096"

definition crlf :: string where "crlf = [CHR 0x0D, CHR 0x0A]"

text \<open>\<open>std::snprintf(m_buffer, sizeof(m_buffer), \<dots>); m_processed.append(m_buffer)\<close>.\<close>

definition print_append :: "string \<Rightarrow> 'a processor_scheme \<Rightarrow> 'a processor_scheme" where
  "print_append s p =
     (let b = snprintf BUFFER_SIZE s in p\<lparr>m_buffer := b, m_processed := m_processed p @ b\<rparr>)"

definition finishSentence :: "'a processor_scheme \<Rightarrow> 'a processor_scheme" where
  "finishSentence p = print_append (fmt_0x 2 (checksum (m_buffer p) BUFFER_SIZE) @ crlf) p"

section \<open>Aircrafts\<close>

record aircraftProcessor = processor +
  m_maxDistance :: int
  m_refPosition :: position
  m_refAtmPressure :: double
  m_refRadLatitude :: double
  m_aircraftRadLatitude :: double
  m_latDistance :: double
  m_refRadLongitude :: double
  m_aircraftRadLongitude :: double
  m_lonDistance :: double
  m_relBearing :: double
  m_absBearing :: double
  m_relNorth :: int
  m_relEast :: int
  m_relVertical :: int
  m_distance :: int

definition AircraftProcessor_new :: "int \<Rightarrow> aircraftProcessor" where
  "AircraftProcessor_new maxDist =
     \<lparr>m_buffer = [], m_processed = [], m_maxDistance = maxDist, m_refPosition = Position_zero,
      m_refAtmPressure = dlit 1013.25, m_refRadLatitude = dlit 0, m_aircraftRadLatitude = dlit 0,
      m_latDistance = dlit 0, m_refRadLongitude = dlit 0, m_aircraftRadLongitude = dlit 0,
      m_lonDistance = dlit 0, m_relBearing = dlit 0, m_absBearing = dlit 0, m_relNorth = 0,
      m_relEast = 0, m_relVertical = 0, m_distance = 0\<rparr>"

definition referTo :: "position \<Rightarrow> double \<Rightarrow> aircraftProcessor \<Rightarrow> aircraftProcessor" where
  "referTo pos atmPress p = p\<lparr>m_refPosition := pos, m_refAtmPressure := atmPress\<rparr>"

text \<open>The square of half the chord between the two positions (the haversine).\<close>

definition haversine :: "aircraftProcessor \<Rightarrow> double" where
  "haversine p =
     d_add (d_pow (d_sin (d_div (m_latDistance p) (dlit 2))) (dlit 2))
           (d_mul (d_mul (d_cos (m_refRadLatitude p)) (d_cos (m_aircraftRadLatitude p)))
                  (d_pow (d_sin (d_div (m_lonDistance p) (dlit 2))) (dlit 2)))"

definition rel_bearing :: "aircraftProcessor \<Rightarrow> double" where
  "rel_bearing p =
     (let dlon = d_sub (m_aircraftRadLongitude p) (m_refRadLongitude p)
      in degree_of
           (d_atan2
              (d_mul (d_sin dlon) (d_cos (m_aircraftRadLatitude p)))
              (d_sub (d_mul (d_cos (m_refRadLatitude p)) (d_sin (m_aircraftRadLatitude p)))
                     (d_mul (d_mul (d_sin (m_refRadLatitude p)) (d_cos (m_aircraftRadLatitude p)))
                            (d_cos dlon)))))"

definition rel_vertical :: "aircraftProcessor \<Rightarrow> aircraft \<Rightarrow> int outcome" where
  "rel_vertical p a =
     (if ac_targetType a = TRANSPONDER
      then obind (icaoHeight (m_refAtmPressure p)) (\<lambda>h. i32 (altitude (ac_position a) - h))
      else i32 (altitude (ac_position a) - altitude (m_refPosition p)))"

definition set_radians :: "aircraft \<Rightarrow> aircraftProcessor \<Rightarrow> aircraftProcessor" where
  "set_radians a p =
     (let refLat = radian (latitude (m_refPosition p));
          refLon = radian (longitude (m_refPosition p));
          acLon = radian (longitude (ac_position a));
          acLat = radian (latitude (ac_position a))
      in p\<lparr>m_refRadLatitude := refLat, m_refRadLongitude := refLon,
           m_aircraftRadLongitude := acLon, m_aircraftRadLatitude := acLat,
           m_lonDistance := d_sub acLon refLon, m_latDistance := d_sub acLat refLat\<rparr>)"

definition calculateRelPosition :: "aircraft \<Rightarrow> aircraftProcessor \<Rightarrow> aircraftProcessor outcome" where
  "calculateRelPosition a p0 =
     (let p = set_radians a p0; h = haversine p in
      obind (doubleToInt (d_mul (dlit 6371000)
               (d_mul (dlit 2) (d_atan2 (d_sqrt h) (d_sqrt (d_sub (dlit 1) h))))))
        (\<lambda>dist. let rel = rel_bearing p; ab = d_fmod (d_add rel (dlit 360)) (dlit 360) in
         obind (doubleToInt (d_mul (d_cos (radian ab)) (d_of_int dist))) (\<lambda>north.
         obind (doubleToInt (d_mul (d_sin (radian ab)) (d_of_int dist))) (\<lambda>east.
         obind (rel_vertical p a) (\<lambda>vert.
           Ret (p\<lparr>m_distance := dist, m_relBearing := rel, m_absBearing := ab,
                  m_relNorth := north, m_relEast := east, m_relVertical := vert\<rparr>))))))"

definition appendPFLAU :: "aircraft \<Rightarrow> aircraftProcessor \<Rightarrow> aircraftProcessor outcome" where
  "appendPFLAU a p =
     obind (doubleToInt (m_relBearing p)) (\<lambda>b.
       Ret (finishSentence (print_append
         (''$PFLAU,,,,1,0,'' @ fmt_d b @ '',0,'' @ fmt_d (m_relVertical p) @ '','' @
          fmt_d (m_distance p) @ '','' @ c_str (ac_id a) @ ''*'') p)))"

definition pflaa_full :: "aircraft \<Rightarrow> aircraftProcessor \<Rightarrow> string outcome" where
  "pflaa_full a p =
     obind (doubleToInt (heading (ac_movement a))) (\<lambda>hd.
     obind (doubleToInt (d_mul (gndSpeed (ac_movement a)) MS_2_KMH)) (\<lambda>spd.
       Ret (''$PFLAA,0,'' @ fmt_d (m_relNorth p) @ '','' @ fmt_d (m_relEast p) @ '','' @
            fmt_d (m_relVertical p) @ '','' @ fmt_hhu 0 (ac_idType a) @ '','' @ c_str (ac_id a) @
            '','' @ fmt_0d 3 hd @ '',,'' @ fmt_d spd @ '','' @
            fmt_f False 3 1 (climbRate (ac_movement a)) @ '','' @ fmt_hhX (ac_aircraftType a) @
            ''*'')))"

definition pflaa_short :: "aircraft \<Rightarrow> aircraftProcessor \<Rightarrow> string" where
  "pflaa_short a p =
     ''$PFLAA,0,'' @ fmt_d (m_relNorth p) @ '','' @ fmt_d (m_relEast p) @ '','' @
     fmt_d (m_relVertical p) @ '',1,'' @ c_str (ac_id a) @ '',,,,,'' @
     fmt_hhX (ac_aircraftType a) @ ''*''"

definition appendPFLAA :: "aircraft \<Rightarrow> aircraftProcessor \<Rightarrow> aircraftProcessor outcome" where
  "appendPFLAA a p =
     obind (if ac_fullInfo a then pflaa_full a p else Ret (pflaa_short a p))
       (\<lambda>s. Ret (finishSentence (print_append s p)))"

definition AircraftProcessor_process ::
  "aircraft \<Rightarrow> aircraftProcessor \<Rightarrow> (aircraft \<times> aircraftProcessor) outcome" where
  "AircraftProcessor_process a p0 =
     obind (calculateRelPosition a p0) (\<lambda>p1.
       let p = p1\<lparr>m_processed := []\<rparr> in
       if m_distance p \<le> m_maxDistance p then
         obind (appendPFLAU a p) (\<lambda>p2. obind (appendPFLAA a p2) (\<lambda>p3.
           Ret (a\<lparr>m_serialized := m_processed p3\<rparr>, p3\<lparr>m_processed := []\<rparr>)))
       else Ret (a\<lparr>m_serialized := []\<rparr>, p))"

section \<open>GPS positions\<close>

text \<open>The broken-down UTC time \<open>std::gmtime\<close> delivers; the clock is a parameter.\<close>

record tm =
  tm_hour :: int
  tm_min :: int
  tm_sec :: int
  tm_mday :: int
  tm_mon :: int
  tm_year :: int

record gpsProcessor = processor +
  m_directionSN :: char
  m_directionEW :: char
  m_degLatitude :: double
  m_degLongitude :: double
  m_minLatitude :: double
  m_minLongitude :: double

definition GpsProcessor_new :: gpsProcessor where
  "GpsProcessor_new =
     \<lparr>m_buffer = [], m_processed = [], m_directionSN = CHR ''x'', m_directionEW = CHR ''x'',
      m_degLatitude = dlit 0, m_degLongitude = dlit 0, m_minLatitude = dlit 0,
      m_minLongitude = dlit 0\<rparr>"

definition evalPosition :: "double \<Rightarrow> double \<Rightarrow> gpsProcessor \<Rightarrow> gpsProcessor" where
  "evalPosition lat lon p =
     (let degLat = d_abs (d_floor lat); degLon = d_abs (d_floor lon)
      in p\<lparr>m_directionSN := (if d_less lat (dlit 0) then CHR ''S'' else CHR ''N''),
           m_directionEW := (if d_less lon (dlit 0) then CHR ''W'' else CHR ''E''),
           m_degLatitude := degLat,
           m_minLatitude := d_abs (d_mul (dlit 60) (d_sub lat degLat)),
           m_degLongitude := degLon,
           m_minLongitude := d_abs (d_mul (dlit 60) (d_sub lon degLon))\<rparr>)"

definition fmt_clock :: "tm \<Rightarrow> string" where
  "fmt_clock utc = fmt_0d 2 (tm_hour utc) @ fmt_0d 2 (tm_min utc) @ fmt_0d 2 (tm_sec utc)"

definition appendGPGGA :: "gpsPosition \<Rightarrow> tm \<Rightarrow> gpsProcessor \<Rightarrow> gpsProcessor" where
  "appendGPGGA pos utc p =
     finishSentence (print_append
       (''$GPGGA,'' @ fmt_clock utc @ '','' @
        fmt_f True 2 0 (m_degLatitude p) @ fmt_f True 7 4 (m_minLatitude p) @ '','' @
        [m_directionSN p] @ '','' @
        fmt_f True 3 0 (m_degLongitude p) @ fmt_f True 7 4 (m_minLongitude p) @ '','' @
        [m_directionEW p] @ '',1,'' @ fmt_hhu 2 (gps_nrOfSatellites pos) @ '',1,'' @
        fmt_d (altitude (gps_position pos)) @ '',M,'' @ fmt_f False 0 1 (gps_geoid pos) @
        '',M,,*'') p)"

definition appendGPRMC :: "tm \<Rightarrow> gpsProcessor \<Rightarrow> gpsProcessor" where
  "appendGPRMC utc p =
     finishSentence (print_append
       (''$GPRMC,'' @ fmt_clock utc @ '',A,'' @
        fmt_f True 2 0 (m_degLatitude p) @ fmt_f True 5 2 (m_minLatitude p) @ '','' @
        [m_directionSN p] @ '','' @
        fmt_f True 3 0 (m_degLongitude p) @ fmt_f True 5 2 (m_minLongitude p) @ '','' @
        [m_directionEW p] @ '',0,0,'' @ fmt_0d 2 (tm_mday utc) @ fmt_0d 2 (tm_mon utc + 1) @
        fmt_0d 2 (tm_year utc - 100) @ '',001.0,W*'') p)"

definition GpsProcessor_process ::
  "tm \<Rightarrow> gpsPosition \<Rightarrow> gpsProcessor \<Rightarrow> gpsPosition \<times> gpsProcessor" where
  "GpsProcessor_process utc pos p0 =
     (let p1 = (evalPosition (latitude (gps_position pos)) (longitude (gps_position pos)) p0)
                 \<lparr>m_processed := []\<rparr>;
          p = appendGPRMC utc (appendGPGGA pos utc p1)
      in (pos\<lparr>m_serialized := m_processed p\<rparr>, p\<lparr>m_processed := []\<rparr>))"

end
