(* ===== verification/Data_AircraftData.thy ===== *)
theory Data_AircraftData
  imports Data_Processor
begin

text \<open>
  \<open>src/data/AircraftData.cpp\<close>: the container of aircrafts. It is a vector together with a hash
  map from aircraft ids to vector positions; \<open>processAircrafts\<close> ages the aircrafts, erases dead
  ones and repairs the positions while it iterates.
\<close>

section \<open>Definitions\<close>

definition AC_DELETE_THRESHOLD :: uint32 where "AC_DELETE_THRESHOLD = 120"
definition AC_NO_FLARM_THRESHOLD :: uint32 where "AC_NO_FLARM_THRESHOLD = OBJ_OUTDATED"

record aircraftData =
  ad_processor :: aircraftProcessor
  ad_container :: "aircraft list"
  ad_index :: "string \<rightharpoonup> nat"

definition AircraftData_new :: "int \<Rightarrow> aircraftData" where
  "AircraftData_new maxDist =
     \<lparr>ad_processor = AircraftProcessor_new maxDist, ad_container = [], ad_index = Map.empty\<rparr>"

text \<open>The loop over the container appends to the destination string.\<close>

fun serialize_loop :: "aircraft list \<Rightarrow> string \<Rightarrow> string" where
  "serialize_loop [] dest = dest"
| "serialize_loop (a # as) dest =
     serialize_loop as (dest @ (if m_updateAge a < OBJ_OUTDATED then m_serialized a else []))"

definition AircraftData_get_serialized :: "aircraftData \<Rightarrow> string \<Rightarrow> string" where
  "AircraftData_get_serialized d dest = serialize_loop (ad_container d) dest"

text \<open>\<open>std::unordered_map::insert\<close> keeps an entry that is already there.\<close>

definition AircraftData_insert :: "aircraft \<Rightarrow> aircraftData \<Rightarrow> aircraftData" where
  "AircraftData_insert a d =
     d\<lparr>ad_index := (case ad_index d (ac_id a) of
                      None \<Rightarrow> (ad_index d)(ac_id a \<mapsto> length (ad_container d))
                    | Some _ \<Rightarrow> ad_index d),
       ad_container := ad_container d @ [a]\<rparr>"

text \<open>
  A position outside the vector, and a \<open>static_cast\<close> of an object of another class, would be
  undefined behaviour.
\<close>

definition AircraftData_update :: "dyn_object \<Rightarrow> aircraftData \<Rightarrow> (bool \<times> aircraftData) outcome" where
  "AircraftData_update x d =
     (case x of
        DAircraft u \<Rightarrow>
          (case ad_index d (ac_id u) of
             Some i \<Rightarrow>
               if i < length (ad_container d) then
                 let (b, a) = Aircraft_tryUpdate (ad_container d ! i) x
                 in Ret (b, d\<lparr>ad_container := (ad_container d)[i := a]\<rparr>)
               else UB
           | None \<Rightarrow> Ret (True, AircraftData_insert u d))
      | _ \<Rightarrow> UB)"

text \<open>Ageing, and the assumption that a silent FLARM target only has a transponder.\<close>

definition tick :: "aircraft \<Rightarrow> aircraft" where
  "tick a =
     (let b = Object_incr a
      in if m_updateAge b = AC_NO_FLARM_THRESHOLD then b\<lparr>ac_targetType := TRANSPONDER\<rparr> else b)"

definition alive :: "aircraft \<Rightarrow> bool" where
  "alive a \<longleftrightarrow> \<not> AC_DELETE_THRESHOLD \<le> m_updateAge a"

definition process_fresh :: "aircraft \<Rightarrow> aircraftProcessor \<Rightarrow> (aircraft \<times> aircraftProcessor) outcome" where
  "process_fresh a p = (if m_updateAge a = 1 then AircraftProcessor_process a p else Ret (a, p))"

text \<open>
  \<open>if (del && it != end()) m_index.at(it->get_id()) = index\<close>: a missing key throws, and the
  handler ignores it.
\<close>

definition reindex :: "nat \<Rightarrow> nat \<Rightarrow> bool \<Rightarrow> aircraftData \<Rightarrow> aircraftData" where
  "reindex it index del d =
     (if del \<and> it < length (ad_container d) then
        let key = ac_id (ad_container d ! it)
        in (case ad_index d key of
              None \<Rightarrow> d
            | Some _ \<Rightarrow> d\<lparr>ad_index := (ad_index d)(key \<mapsto> index)\<rparr>)
      else d)"

lemma reindex_simps [simp]:
  "ad_container (reindex it index del d) = ad_container d"
  "ad_processor (reindex it index del d) = ad_processor d"
  by (simp_all add: reindex_def Let_def split: option.split)

text \<open>The loop: \<open>it\<close> is the iterator's position, \<open>index\<close> and \<open>del\<close> the local variables.\<close>

function process_loop :: "nat \<Rightarrow> nat \<Rightarrow> bool \<Rightarrow> aircraftData \<Rightarrow> aircraftData outcome" where
  "process_loop it index del d =
     (if it < length (ad_container d) then
        let a = tick (ad_container d ! it) in
        if \<not> alive a then
          process_loop it index True
            (reindex it index True
              (d\<lparr>ad_index := (ad_index d)(ac_id a := None),
                 ad_container := take it (ad_container d) @ drop (Suc it) (ad_container d)\<rparr>))
        else
          obind (process_fresh a (ad_processor d)) (\<lambda>(b, p).
            process_loop (Suc it) (Suc index) del
              (reindex (Suc it) (Suc index) del
                (d\<lparr>ad_container := (ad_container d)[it := b], ad_processor := p\<rparr>)))
      else Ret d)"
  by pat_completeness auto
termination
  by (relation "measure (\<lambda>(it, index, del, d). length (ad_container d) - it)") auto

declare process_loop.simps [simp del]

definition processAircrafts :: "position \<Rightarrow> double \<Rightarrow> aircraftData \<Rightarrow> aircraftData outcome" where
  "processAircrafts pos atmPress d =
     process_loop 0 0 False (d\<lparr>ad_processor := referTo pos atmPress (ad_processor d)\<rparr>)"

section \<open>The invariant\<close>

abbreviation ids :: "aircraftData \<Rightarrow> string list" where
  "ids d \<equiv> map ac_id (ad_container d)"

text \<open>No id occurs twice in the vector, and the hash map sends every id to its position.\<close>

definition ad_inv :: "aircraftData \<Rightarrow> bool" where
  "ad_inv d \<longleftrightarrow> distinct (ids d) \<and> ad_index d = index_of (ids d)"

lemma ad_inv_new: "ad_inv (AircraftData_new m)"
  by (simp add: ad_inv_def AircraftData_new_def)

section \<open>Insertion and update\<close>

lemma Aircraft_tryUpdate_id [simp]: "ac_id (snd (Aircraft_tryUpdate a x)) = ac_id a"
  by (cases x) (auto simp: Aircraft_tryUpdate_def tryUpdate_def)

lemma map_id_update:
  "ac_id a = ac_id (as ! i) \<Longrightarrow> i < length as \<Longrightarrow> map ac_id (as[i := a]) = map ac_id as"
  by (metis length_map list_update_id map_update nth_map)

lemma AircraftData_update_cases:
  assumes "AircraftData_update x d = Ret (b, d')"
  obtains (insert) u where "x = DAircraft u" "ad_index d (ac_id u) = None"
      "d' = AircraftData_insert u d" "b"
    | (update) u i where "x = DAircraft u" "ad_index d (ac_id u) = Some i"
      "i < length (ad_container d)" "b = fst (Aircraft_tryUpdate (ad_container d ! i) x)"
      "d' = d\<lparr>ad_container := (ad_container d)[i := snd (Aircraft_tryUpdate (ad_container d ! i) x)]\<rparr>"
  using assms
  by (auto simp: AircraftData_update_def split: dyn_object.splits option.splits if_splits prod.splits)

lemma AircraftData_update_inv:
  assumes "ad_inv d" "AircraftData_update x d = Ret (b, d')"
  shows "ad_inv d'"
  using assms(2)
proof (cases rule: AircraftData_update_cases)
  case (insert u)
  then have "distinct (ids d @ [ac_id u])"
    using assms(1) by (simp add: ad_inv_def index_of_None_iff del: set_map)
  then show ?thesis
    using insert assms(1) by (simp add: ad_inv_def AircraftData_insert_def index_of_snoc del: set_map)
next
  case (update u i)
  then have "ids d' = ids d"
    using assms(1) index_of_SomeD [of "ids d" "ac_id u" i] by (simp add: map_id_update)
  then show ?thesis using update assms(1) by (simp add: ad_inv_def)
qed

lemma AircraftData_update_defined:
  assumes "ad_inv d"
  shows "\<exists>b d'. AircraftData_update (DAircraft u) d = Ret (b, d')"
  using assms index_of_SomeD [of "ids d" "ac_id u"]
  by (auto simp: AircraftData_update_def ad_inv_def split: option.split prod.split)

section \<open>The processing loop\<close>

lemma process_serialized_only:
  assumes "AircraftProcessor_process a p = Ret (b, q)"
  shows "\<exists>s. b = a\<lparr>m_serialized := s\<rparr>"
  using assms by (auto simp: AircraftProcessor_process_def Let_def elim!: obind_RetE split: if_splits)

lemma process_fresh_serialized_only:
  assumes "process_fresh a p = Ret (b, q)"
  shows "\<exists>s. b = a\<lparr>m_serialized := s\<rparr>"
  using assms process_serialized_only [of a p b q]
  by (cases a) (auto simp: process_fresh_def split: if_splits)

lemma process_fresh_id: "process_fresh a p = Ret (b, q) \<Longrightarrow> ac_id b = ac_id a"
  using process_fresh_serialized_only by fastforce

lemma tick_id [simp]: "ac_id (tick a) = ac_id a"
  by (simp add: tick_def Let_def)

text \<open>
  The reference: age every aircraft, drop the dead ones, process the survivors one after the
  other, and number them from zero.
\<close>

fun process_all :: "aircraft list \<Rightarrow> aircraftProcessor \<Rightarrow> (aircraft list \<times> aircraftProcessor) outcome" where
  "process_all [] p = Ret ([], p)"
| "process_all (a # as) p =
     obind (process_fresh a p) (\<lambda>(b, q).
     obind (process_all as q) (\<lambda>(bs, r). Ret (b # bs, r)))"

definition processAircrafts_ref :: "position \<Rightarrow> double \<Rightarrow> aircraftData \<Rightarrow> aircraftData outcome" where
  "processAircrafts_ref pos atmPress d =
     omap (\<lambda>(as, p). d\<lparr>ad_processor := p, ad_container := as, ad_index := index_of (map ac_id as)\<rparr>)
       (process_all (filter alive (map tick (ad_container d)))
          (referTo pos atmPress (ad_processor d)))"

text \<open>
  The loop invariant, on the ids of the finished and of the remaining aircrafts: the finished ones
  and the next one have their final position; behind the next one positions are stale once an
  aircraft was erased.
\<close>

definition loop_inv :: "string list \<Rightarrow> string list \<Rightarrow> bool \<Rightarrow> (string \<rightharpoonup> nat) \<Rightarrow> bool" where
  "loop_inv dn td del m \<longleftrightarrow>
     distinct (dn @ td) \<and> dom m = set (dn @ td) \<and>
     (\<forall>i < length dn. m (dn ! i) = Some i) \<and>
     (td \<noteq> [] \<longrightarrow> m (hd td) = Some (length dn)) \<and>
     (\<not> del \<longrightarrow> (\<forall>j < length td. m (td ! j) = Some (length dn + j)))"

lemma loop_inv_erase:
  assumes "loop_inv dn (a # td) del m"
  shows "loop_inv dn td True
    (if td = [] then m(a := None) else (m(a := None))(hd td \<mapsto> length dn))"
  using assms by (cases td) (auto simp: loop_inv_def nth_eq_iff_index_eq in_set_conv_nth)

lemma loop_inv_keep:
  assumes "loop_inv dn (a # td) del m"
  shows "loop_inv (dn @ [a]) td del
    (if del \<and> td \<noteq> [] then m(hd td \<mapsto> Suc (length dn)) else m)"
proof -
  have rest: "m (td ! j) = Some (Suc (length dn) + j)" if "\<not> del" "j < length td" for j
    using assms that by (auto simp: loop_inv_def dest: spec [of _ "Suc j"])
  moreover have "m (hd td) = Some (Suc (length dn))" if "\<not> del" "td \<noteq> []"
    using rest [of 0] that by (simp add: hd_conv_nth)
  ultimately show ?thesis
    using assms by (cases td) (auto simp: loop_inv_def nth_append less_Suc_eq)
qed

lemma reindex_index:
  assumes "ad_container d = dn @ td" "\<forall>a \<in> set td. ac_id a \<in> dom (ad_index d)"
  shows "ad_index (reindex (length dn) i del d) =
    (if del \<and> map ac_id td \<noteq> [] then (ad_index d)(hd (map ac_id td) \<mapsto> i) else ad_index d)"
  using assms by (cases td) (auto simp: reindex_def nth_append domIff split: option.split)

lemma reindex_overwrite:
  "(reindex it i del d)\<lparr>ad_processor := p, ad_container := c, ad_index := m\<rparr> =
     d\<lparr>ad_processor := p, ad_container := c, ad_index := m\<rparr>"
  by (simp add: reindex_def Let_def split: option.split)

text \<open>One turn of the loop: erasing a dead aircraft, keeping a live one.\<close>

lemma process_loop_dead:
  assumes "ad_container d = dn @ a # td" "\<not> alive (tick a)"
    and inv: "loop_inv (map ac_id dn) (ac_id a # map ac_id td) del (ad_index d)"
  obtains d2 where
    "process_loop (length dn) (length dn) del d = process_loop (length dn) (length dn) True d2"
    "ad_container d2 = dn @ td" "ad_processor d2 = ad_processor d"
    "loop_inv (map ac_id dn) (map ac_id td) True (ad_index d2)"
    "\<And>p c m. d2\<lparr>ad_processor := p, ad_container := c, ad_index := m\<rparr> =
              d\<lparr>ad_processor := p, ad_container := c, ad_index := m\<rparr>"
proof
  define d1 where "d1 = d\<lparr>ad_index := (ad_index d)(ac_id a := None), ad_container := dn @ td\<rparr>"
  let ?d2 = "reindex (length dn) (length dn) True d1"
  have "ac_id x \<in> dom (ad_index d)" "ac_id x \<noteq> ac_id a" if "x \<in> set td" for x
    using inv imageI [OF that, of ac_id] by (auto simp: loop_inv_def)
  then have "ad_index ?d2 = (if map ac_id td = [] then (ad_index d)(ac_id a := None)
      else ((ad_index d)(ac_id a := None))(hd (map ac_id td) \<mapsto> length (map ac_id dn)))"
    using reindex_index [of d1 dn td "length dn" True] by (auto simp: d1_def)
  then show "loop_inv (map ac_id dn) (map ac_id td) True (ad_index ?d2)"
    using loop_inv_erase [OF inv] by simp
  show "process_loop (length dn) (length dn) del d = process_loop (length dn) (length dn) True ?d2"
    using assms by (subst process_loop.simps) (simp add: d1_def)
  show "ad_container ?d2 = dn @ td" "ad_processor ?d2 = ad_processor d" by (simp_all add: d1_def)
  show "?d2\<lparr>ad_processor := p, ad_container := c, ad_index := m\<rparr> =
      d\<lparr>ad_processor := p, ad_container := c, ad_index := m\<rparr>" for p c m
    by (simp only: reindex_overwrite) (simp add: d1_def)
qed

lemma process_loop_live:
  assumes "ad_container d = dn @ a # td" "alive (tick a)"
    and inv: "loop_inv (map ac_id dn) (ac_id a # map ac_id td) del (ad_index d)"
    and fresh: "process_fresh (tick a) (ad_processor d) = Ret (b, p)"
  obtains d2 where
    "process_loop (length dn) (length dn) del d =
       process_loop (length (dn @ [b])) (length (dn @ [b])) del d2"
    "ad_container d2 = (dn @ [b]) @ td" "ad_processor d2 = p"
    "loop_inv (map ac_id (dn @ [b])) (map ac_id td) del (ad_index d2)"
    "\<And>p c m. d2\<lparr>ad_processor := p, ad_container := c, ad_index := m\<rparr> =
              d\<lparr>ad_processor := p, ad_container := c, ad_index := m\<rparr>"
proof
  define d1 where "d1 = d\<lparr>ad_container := (dn @ [b]) @ td, ad_processor := p\<rparr>"
  let ?d2 = "reindex (length (dn @ [b])) (length (dn @ [b])) del d1"
  have id: "ac_id b = ac_id a" using process_fresh_id [OF fresh] by simp
  have "ac_id x \<in> dom (ad_index d)" if "x \<in> set td" for x
    using inv imageI [OF that, of ac_id] by (auto simp: loop_inv_def)
  then have "ad_index ?d2 = (if del \<and> map ac_id td \<noteq> []
      then (ad_index d)(hd (map ac_id td) \<mapsto> Suc (length (map ac_id dn))) else ad_index d)"
    using reindex_index [of d1 "dn @ [b]" td "length (dn @ [b])" del] by (auto simp: d1_def)
  then show "loop_inv (map ac_id (dn @ [b])) (map ac_id td) del (ad_index ?d2)"
    using loop_inv_keep [OF inv] by (simp add: id)
  show "process_loop (length dn) (length dn) del d =
      process_loop (length (dn @ [b])) (length (dn @ [b])) del ?d2"
    using assms by (subst process_loop.simps) (simp add: d1_def)
  show "ad_container ?d2 = (dn @ [b]) @ td" "ad_processor ?d2 = p" by (simp_all add: d1_def)
  show "?d2\<lparr>ad_processor := q, ad_container := c, ad_index := m\<rparr> =
      d\<lparr>ad_processor := q, ad_container := c, ad_index := m\<rparr>" for q c m
    by (simp only: reindex_overwrite) (simp add: d1_def)
qed

lemma process_loop_ref:
  assumes "ad_container d = dn @ td" "loop_inv (map ac_id dn) (map ac_id td) del (ad_index d)"
  shows "process_loop (length dn) (length dn) del d =
    omap (\<lambda>(as, p). d\<lparr>ad_processor := p, ad_container := dn @ as,
                      ad_index := index_of (map ac_id (dn @ as))\<rparr>)
      (process_all (filter alive (map tick td)) (ad_processor d))"
  using assms
proof (induction td arbitrary: dn del d)
  case Nil
  then have "ad_index d = index_of (map ac_id dn)"
    by (intro index_of_unique) (simp_all add: loop_inv_def)
  with Nil show ?case by (cases d) (simp add: process_loop.simps)
next
  case (Cons a td)
  then have inv: "loop_inv (map ac_id dn) (ac_id a # map ac_id td) del (ad_index d)" by simp
  show ?case
  proof (cases "alive (tick a)")
    case False
    from Cons.prems(1) False inv show ?thesis
      by (rule process_loop_dead) (use False Cons.IH [of _ dn True] in simp)
  next
    case True
    show ?thesis
    proof (cases "process_fresh (tick a) (ad_processor d)")
      case (Ret bp)
      then obtain b p where fresh: "process_fresh (tick a) (ad_processor d) = Ret (b, p)"
        by (cases bp) auto
      from Cons.prems(1) True inv fresh show ?thesis
        by (rule process_loop_live)
           (use True fresh Cons.IH [of _ "dn @ [b]" del] in
             \<open>cases "process_all (filter alive (map tick td)) p"; auto\<close>)
    qed (use True Cons.prems(1) in \<open>subst process_loop.simps, simp\<close>)+
  qed
qed

lemma loop_inv_start: "ad_inv d \<Longrightarrow> loop_inv [] (ids d) False (ad_index d)"
  using index_of_nth [of "ids d"] by (auto simp: ad_inv_def loop_inv_def hd_conv_nth)

lemma processAircrafts_ref_eq:
  assumes "ad_inv d"
  shows "processAircrafts pos atmPress d = processAircrafts_ref pos atmPress d"
  using process_loop_ref [of "d\<lparr>ad_processor := referTo pos atmPress (ad_processor d)\<rparr>" "[]"
      "ad_container d" False] loop_inv_start [OF assms]
  by (simp add: processAircrafts_def processAircrafts_ref_def)

lemma process_all_ids:
  "process_all as p = Ret (bs, q) \<Longrightarrow> map ac_id bs = map ac_id as"
  by (induction as arbitrary: p bs q)
     (auto elim!: obind_RetE dest!: process_fresh_id split: prod.splits)

lemma processAircrafts_Ret:
  assumes "ad_inv d" "processAircrafts pos atmPress d = Ret d'"
  obtains as p where
    "process_all (filter alive (map tick (ad_container d))) (referTo pos atmPress (ad_processor d)) = Ret (as, p)"
    "d' = d\<lparr>ad_processor := p, ad_container := as, ad_index := index_of (map ac_id as)\<rparr>"
  using assms
  by (auto simp: processAircrafts_ref_eq processAircrafts_ref_def omap_eq_Ret_conv)

lemma processAircrafts_inv:
  assumes "ad_inv d" "processAircrafts pos atmPress d = Ret d'"
  shows "ad_inv d'"
proof -
  obtain as p where r: "process_all (filter alive (map tick (ad_container d)))
      (referTo pos atmPress (ad_processor d)) = Ret (as, p)"
    and d': "d' = d\<lparr>ad_processor := p, ad_container := as, ad_index := index_of (map ac_id as)\<rparr>"
    using assms by (rule processAircrafts_Ret)
  have "map ac_id as = map ac_id (filter alive (map tick (ad_container d)))"
    by (rule process_all_ids [OF r])
  moreover have "distinct (map ac_id (filter alive (map tick as')))" if "distinct (map ac_id as')" for as'
    using that by (induction as') (auto simp: image_iff)
  ultimately show ?thesis using assms(1) d' by (simp add: ad_inv_def)
qed

end
