(* ===== verification/Data_AircraftSpec.thy ===== *)
theory Data_AircraftSpec
  imports Data_AircraftData
begin

text \<open>
  What the container of aircrafts promises: it is a map from ids to aircrafts; an update and a run
  of the processing loop act on each aircraft separately.
\<close>

section \<open>Processing is local\<close>

text \<open>
  The result for an aircraft depends on the reference position, the pressure and the distance
  limit, but not on what the processor computed before.
\<close>

definition clean :: "aircraftProcessor \<Rightarrow> aircraftProcessor" where
  "clean p = referTo (m_refPosition p) (m_refAtmPressure p) (AircraftProcessor_new (m_maxDistance p))"

lemma calculateRelPosition_clean:
  "calculateRelPosition a p =
     omap (\<lambda>r. r\<lparr>m_buffer := m_buffer p, m_processed := m_processed p\<rparr>)
       (calculateRelPosition a (clean p))"
  by (cases p)
     (simp add: calculateRelPosition_def clean_def referTo_def AircraftProcessor_new_def set_radians_def
       haversine_def rel_bearing_def rel_vertical_def Let_def omap_def obind_assoc)

lemma calculateRelPosition_frame:
  "calculateRelPosition a p = Ret q \<Longrightarrow> clean q = clean p"
  by (auto simp: calculateRelPosition_def set_radians_def clean_def Let_def elim!: obind_RetE)


lemma process_clean:
  "omap fst (AircraftProcessor_process a p) = omap fst (AircraftProcessor_process a (clean p))"
proof -
  have *: "appendPFLAU a (r\<lparr>m_buffer := b, m_processed := []\<rparr>) = appendPFLAU a (r\<lparr>m_processed := []\<rparr>)"
    for b and r :: aircraftProcessor
    by (cases r) (simp add: appendPFLAU_def print_append_def finishSentence_def Let_def)
  show ?thesis
    unfolding AircraftProcessor_process_def calculateRelPosition_clean [of a p]
    by (cases "calculateRelPosition a (clean p)") (simp_all add: Let_def * omap_def obind_assoc)
qed

lemma print_append_clean [simp]: "clean (print_append s p) = clean p"
  by (simp add: clean_def print_append_def Let_def)

lemma append_sentences_clean:
  "appendPFLAU a p = Ret q \<Longrightarrow> clean q = clean p"
  "appendPFLAA a p = Ret q \<Longrightarrow> clean q = clean p"
  by (auto simp: appendPFLAU_def appendPFLAA_def finishSentence_def elim!: obind_RetE)

lemma clean_processed [simp]: "clean (p\<lparr>m_processed := s\<rparr>) = clean p"
  by (simp add: clean_def)

lemma process_keeps_clean:
  "AircraftProcessor_process a p = Ret (b, q) \<Longrightarrow> clean q = clean p"
  by (auto simp: AircraftProcessor_process_def Let_def elim!: obind_RetE split: if_splits
      dest!: calculateRelPosition_frame append_sentences_clean)

lemma process_fresh_clean:
  assumes "process_fresh a p = Ret (b, q)"
  shows "omap fst (process_fresh a (clean p)) = Ret b" "clean q = clean p"
  using assms process_clean [of a p] process_keeps_clean [of a p b q]
  by (auto simp: process_fresh_def split: if_splits)

text \<open>What one run of the loop makes of a single aircraft that survives it.\<close>

definition processed_alone :: "aircraftProcessor \<Rightarrow> aircraft \<Rightarrow> aircraft outcome" where
  "processed_alone p a = omap fst (process_fresh (tick a) p)"

lemma process_all_alone:
  "process_all as p = Ret (bs, q) \<Longrightarrow>
     list_all2 (\<lambda>a b. omap fst (process_fresh a (clean p)) = Ret b) as bs \<and> clean q = clean p"
proof (induction as arbitrary: p bs q)
  case (Cons a as)
  then obtain b r bs' where "process_fresh a p = Ret (b, r)" "process_all as r = Ret (bs', q)" "bs = b # bs'"
    by (auto elim!: obind_RetE split: prod.splits)
  with Cons.IH [of r bs' q] process_fresh_clean [of a p b r] show ?case by simp
qed simp

section \<open>The store as a map\<close>

definition ad_lookup :: "aircraftData \<Rightarrow> string \<rightharpoonup> aircraft" where
  "ad_lookup d k = map_option (\<lambda>i. ad_container d ! i) (ad_index d k)"

lemma ad_lookup_find: "ad_inv d \<Longrightarrow> ad_lookup d k = find (\<lambda>a. ac_id a = k) (ad_container d)"
  by (simp add: ad_lookup_def ad_inv_def find_index_of)

lemma find_filter_tick:
  assumes "distinct (map ac_id as)"
  shows "find (\<lambda>a. ac_id a = k) (filter alive (map tick as)) =
    (case find (\<lambda>a. ac_id a = k) as of
       None \<Rightarrow> None | Some a \<Rightarrow> if alive (tick a) then Some (tick a) else None)"
  using assms
proof (induction as)
  case (Cons a as)
  show ?case
  proof (cases "ac_id a = k")
    case True
    then have "find (\<lambda>a. ac_id a = k) as = None"
      using Cons.prems by (simp add: find_None_iff) (metis image_eqI)
    then show ?thesis using True Cons by simp
  qed (use Cons in simp)
qed simp


section \<open>Reachable states\<close>

text \<open>The states the container can be in: it is created, updated and processed, in any order.\<close>

inductive ad_reach :: "int \<Rightarrow> aircraftData \<Rightarrow> bool" for maxDist where
  new: "ad_reach maxDist (AircraftData_new maxDist)"
| update: "ad_reach maxDist d \<Longrightarrow> AircraftData_update x d = Ret (b, d') \<Longrightarrow> ad_reach maxDist d'"
| process: "ad_reach maxDist d \<Longrightarrow> processAircrafts pos atmPress d = Ret d' \<Longrightarrow> ad_reach maxDist d'"

lemma clean_maxDistance: "clean p = clean q \<Longrightarrow> m_maxDistance p = m_maxDistance q"
  by (simp add: clean_def referTo_def AircraftProcessor_new_def)

lemma clean_referTo:
  "clean (referTo pos atmPress p) = referTo pos atmPress (AircraftProcessor_new (m_maxDistance p))"
  by (simp add: clean_def referTo_def)

lemma update_processor: "AircraftData_update x d = Ret (b, d') \<Longrightarrow> ad_processor d' = ad_processor d"
  by (erule AircraftData_update_cases) (simp_all add: AircraftData_insert_def)

lemma processAircrafts_processor:
  assumes "ad_inv d" "processAircrafts pos atmPress d = Ret d'"
  shows "m_maxDistance (ad_processor d') = m_maxDistance (ad_processor d)"
  using assms
proof (rule processAircrafts_Ret)
  fix as p
  assume "process_all (filter alive (map tick (ad_container d))) (referTo pos atmPress (ad_processor d)) = Ret (as, p)"
    and d': "d' = d\<lparr>ad_processor := p, ad_container := as, ad_index := index_of (map ac_id as)\<rparr>"
  then show ?thesis using process_all_alone clean_maxDistance [of p] by (fastforce simp: referTo_def)
qed

lemma ad_reach_inv: "ad_reach maxDist d \<Longrightarrow> ad_inv d \<and> m_maxDistance (ad_processor d) = maxDist"
proof (induction rule: ad_reach.induct)
  case new
  then show ?case by (simp add: ad_inv_new) (simp add: AircraftData_new_def AircraftProcessor_new_def)
next
  case (update d x b d')
  then show ?case using AircraftData_update_inv update_processor by metis
next
  case (process d pos atmPress d')
  then show ?case using processAircrafts_inv processAircrafts_processor by metis
qed

section \<open>The map specification\<close>

definition ad_spec_update :: "aircraft \<Rightarrow> (string \<rightharpoonup> aircraft) \<Rightarrow> bool \<times> (string \<rightharpoonup> aircraft)" where
  "ad_spec_update u m =
     (case m (ac_id u) of
        None \<Rightarrow> (True, m(ac_id u \<mapsto> u))
      | Some a \<Rightarrow> if Aircraft_canUpdate u a then (True, m(ac_id u \<mapsto> Aircraft_assign a u)) else (False, m))"

definition ad_spec_process ::
  "int \<Rightarrow> position \<Rightarrow> double \<Rightarrow> (string \<rightharpoonup> aircraft) \<Rightarrow> (string \<rightharpoonup> aircraft)" where
  "ad_spec_process maxDist pos atmPress m k =
     (case m k of
        None \<Rightarrow> None
      | Some a \<Rightarrow>
          if alive (tick a) then
            (case processed_alone (referTo pos atmPress (AircraftProcessor_new maxDist)) a of
               Ret b \<Rightarrow> Some b | _ \<Rightarrow> None)
          else None)"

lemma ad_lookup_insert:
  assumes "ad_inv d" "ad_index d (ac_id u) = None"
  shows "ad_lookup (AircraftData_insert u d) = (ad_lookup d)(ac_id u \<mapsto> u)"
proof
  fix k
  have "ad_inv (AircraftData_insert u d)"
    using assms AircraftData_update_inv [of d "DAircraft u"] by (simp add: AircraftData_update_def)
  moreover have "find (\<lambda>a. ac_id a = ac_id u) (ad_container d) = None"
    using ad_lookup_find [OF assms(1), of "ac_id u"] assms(2) by (simp add: ad_lookup_def)
  ultimately show "ad_lookup (AircraftData_insert u d) k = ((ad_lookup d)(ac_id u \<mapsto> u)) k"
    using assms(1) by (auto simp: ad_lookup_find AircraftData_insert_def find_append split: option.split)
qed

lemma ad_lookup_assign:
  assumes "ad_inv d" "ad_index d k = Some i" "ac_id a = k"
  shows "ad_lookup (d\<lparr>ad_container := (ad_container d)[i := a]\<rparr>) = (ad_lookup d)(k \<mapsto> a)"
proof
  fix l
  have i: "i < length (ad_container d)"
    using assms index_of_SomeD [of "ids d" k i] by (simp add: ad_inv_def)
  have "j \<noteq> i" if "ad_index d l = Some j" "l \<noteq> k" for j
    using that assms index_of_SomeD [of "ids d" l j] index_of_SomeD [of "ids d" k i]
    by (auto simp: ad_inv_def)
  then show "ad_lookup (d\<lparr>ad_container := (ad_container d)[i := a]\<rparr>) l = ((ad_lookup d)(k \<mapsto> a)) l"
    using assms i by (cases "ad_index d l") (auto simp: ad_lookup_def)
qed

lemma process_fresh_clean_eq: "omap fst (process_fresh a p) = omap fst (process_fresh a (clean p))"
  using process_clean by (simp add: process_fresh_def)

lemma process_all_total:
  assumes "\<forall>a \<in> set as. \<exists>b. omap fst (process_fresh a (clean p)) = Ret b"
  shows "\<exists>bs q. process_all as p = Ret (bs, q)"
  using assms
proof (induction as arbitrary: p)
  case (Cons a as)
  then have "\<exists>b. omap fst (process_fresh a p) = Ret b"
    by (simp add: process_fresh_clean_eq [of a p])
  then obtain b q where r: "process_fresh a p = Ret (b, q)"
    by (auto simp: omap_eq_Ret_conv)
  then have "clean q = clean p" by (rule process_fresh_clean)
  then show ?case using Cons.IH [of q] Cons.prems r by fastforce
qed simp

lemma process_all_find:
  assumes "process_all as p = Ret (bs, q)"
  shows "rel_option (\<lambda>a b. omap fst (process_fresh a (clean p)) = Ret b)
    (find (\<lambda>a. ac_id a = k) as) (find (\<lambda>a. ac_id a = k) bs)"
  by (rule find_list_all2 [OF conjunct1 [OF process_all_alone [OF assms]]])
     (auto simp: omap_eq_Ret_conv dest: process_fresh_id)

text \<open>What a finished run did to the aircraft with a given id.\<close>

lemma processAircrafts_entry:
  assumes "ad_inv d" "processAircrafts pos atmPress d = Ret d'"
  defines "p \<equiv> referTo pos atmPress (AircraftProcessor_new (m_maxDistance (ad_processor d)))"
  shows "case ad_lookup d k of
      None \<Rightarrow> ad_lookup d' k = None
    | Some a \<Rightarrow> if alive (tick a) then \<exists>b. processed_alone p a = Ret b \<and> ad_lookup d' k = Some b
                else ad_lookup d' k = None"
  using assms(1, 2)
proof (rule processAircrafts_Ret)
  fix as q
  assume r: "process_all (filter alive (map tick (ad_container d)))
      (referTo pos atmPress (ad_processor d)) = Ret (as, q)"
    and d': "d' = d\<lparr>ad_processor := q, ad_container := as, ad_index := index_of (map ac_id as)\<rparr>"
  have "ad_inv d'" using assms(1, 2) by (rule processAircrafts_inv)
  then show ?thesis
    using assms(1) d' process_all_find [OF r, of k] find_filter_tick [of "ad_container d" k]
    by (auto simp: ad_lookup_find processed_alone_def clean_referTo p_def ad_inv_def
        option.rel_sel split: option.splits if_splits)
qed

lemma processAircrafts_lookup:
  assumes "ad_inv d" "processAircrafts pos atmPress d = Ret d'"
  shows "ad_lookup d' = ad_spec_process (m_maxDistance (ad_processor d)) pos atmPress (ad_lookup d)"
proof
  fix k
  show "ad_lookup d' k = ad_spec_process (m_maxDistance (ad_processor d)) pos atmPress (ad_lookup d) k"
    using processAircrafts_entry [OF assms, of k]
    by (auto simp: ad_spec_process_def split: option.split if_splits)
qed

lemma processAircrafts_total:
  assumes "ad_inv d"
    and "\<forall>k a. ad_lookup d k = Some a \<and> alive (tick a) \<longrightarrow>
      (\<exists>b. processed_alone (referTo pos atmPress (AircraftProcessor_new (m_maxDistance (ad_processor d)))) a = Ret b)"
  shows "\<exists>d'. processAircrafts pos atmPress d = Ret d'"
proof -
  have "\<exists>b. omap fst (process_fresh x (clean (referTo pos atmPress (ad_processor d)))) = Ret b"
    if x: "x \<in> set (filter alive (map tick (ad_container d)))" for x
  proof -
    from x obtain a where a: "a \<in> set (ad_container d)" "x = tick a" "alive x" by auto
    from a(1) obtain i where i: "i < length (ad_container d)" "a = ad_container d ! i"
      by (auto simp: in_set_conv_nth)
    then have "ad_lookup d (ac_id a) = Some a"
      using assms(1) index_of_nth [of "ids d" i] by (simp add: ad_lookup_def ad_inv_def)
    then show ?thesis using assms(2) a by (simp add: processed_alone_def clean_referTo)
  qed
  then obtain as p where "process_all (filter alive (map tick (ad_container d)))
      (referTo pos atmPress (ad_processor d)) = Ret (as, p)"
    using process_all_total by blast
  then show ?thesis using assms(1) by (simp add: processAircrafts_ref_eq processAircrafts_ref_def)
qed

lemma update_refines:
  assumes "ad_reach maxDist d"
  shows "\<exists>d'. AircraftData_update (DAircraft u) d = Ret (fst (ad_spec_update u (ad_lookup d)), d') \<and>
    ad_lookup d' = snd (ad_spec_update u (ad_lookup d))"
proof -
  have inv: "ad_inv d" using ad_reach_inv [OF assms] by blast
  show ?thesis
  proof (cases "ad_index d (ac_id u)")
    case None
    then have "ad_lookup d (ac_id u) = None" by (simp add: ad_lookup_def)
    with None show ?thesis
      using ad_lookup_insert [OF inv None] by (auto simp: AircraftData_update_def ad_spec_update_def)
  next
    case (Some i)
    then have i: "i < length (ad_container d)" "ac_id (ad_container d ! i) = ac_id u"
      using inv index_of_SomeD [of "ids d" "ac_id u" i] by (auto simp: ad_inv_def)
    from Some have "ad_lookup d (ac_id u) = Some (ad_container d ! i)" by (simp add: ad_lookup_def)
    then show ?thesis
      using Some i ad_lookup_assign [OF inv Some, of "Aircraft_assign (ad_container d ! i) u"]
      by (simp add: AircraftData_update_def ad_spec_update_def Aircraft_tryUpdate_eq)
  qed
qed

section \<open>Silent aircrafts\<close>

text \<open>Consecutive runs of the loop with no report in between.\<close>

fun process_runs :: "(position \<times> double) list \<Rightarrow> aircraftData \<Rightarrow> aircraftData outcome" where
  "process_runs [] d = Ret d"
| "process_runs ((pos, atmPress) # refs) d =
     obind (processAircrafts pos atmPress d) (process_runs refs)"

lemma processed_alone_fields:
  assumes "processed_alone p a = Ret b"
  shows "m_updateAge b = m_updateAge a + 1" "ac_timeStamp b = ac_timeStamp a"
    "m_lastPriority b = m_lastPriority a" "ac_id b = ac_id a"
    "ac_targetType b = (if m_updateAge a + 1 = AC_NO_FLARM_THRESHOLD then TRANSPONDER else ac_targetType a)"
  using assms process_fresh_serialized_only [of "tick a"]
  by (force simp: processed_alone_def omap_eq_Ret_conv tick_def Let_def)+

lemma unat_age_Suc: "unat (x :: uint32) < 120 \<Longrightarrow> unat (x + 1) = unat x + 1"
  by (simp add: unat_word_ariths)

lemma alive_tick_iff:
  assumes "unat (m_updateAge a) < 120"
  shows "alive (tick a) \<longleftrightarrow> unat (m_updateAge a) + 1 < 120"
proof -
  have "m_updateAge (tick a) = m_updateAge a + 1" by (simp add: tick_def Let_def)
  then show ?thesis
    using unat_age_Suc [OF assms] by (auto simp: alive_def AC_DELETE_THRESHOLD_def word_le_nat_alt)
qed

lemma ad_lookup_id: "ad_inv d \<Longrightarrow> ad_lookup d k = Some a \<Longrightarrow> ac_id a = k"
  by (auto simp: ad_lookup_find find_Some_iff)

lemma process_runs_None:
  "ad_inv d \<Longrightarrow> process_runs refs d = Ret d' \<Longrightarrow> ad_lookup d k = None \<Longrightarrow> ad_lookup d' k = None"
proof (induction refs arbitrary: d)
  case (Cons r refs)
  obtain pos atmPress where "r = (pos, atmPress)" by (cases r)
  with Cons.prems obtain e where "processAircrafts pos atmPress d = Ret e" "process_runs refs e = Ret d'"
    by (auto elim!: obind_RetE)
  then show ?case
    using Cons.IH [of e] Cons.prems processAircrafts_inv processAircrafts_lookup [of d pos atmPress e]
    by (simp add: ad_spec_process_def)
qed simp

text \<open>An aircraft after some silent runs: its age has grown, and a FLARM target has been given up.\<close>

definition silent :: "nat \<Rightarrow> aircraft \<Rightarrow> aircraft \<Rightarrow> bool" where
  "silent n a b \<longleftrightarrow>
     unat (m_updateAge b) = unat (m_updateAge a) + n \<and> ac_timeStamp b = ac_timeStamp a \<and>
     m_lastPriority b = m_lastPriority a \<and>
     ac_targetType b = (if unat (m_updateAge a) < 4 \<and> 4 \<le> unat (m_updateAge a) + n
                        then TRANSPONDER else ac_targetType a)"

lemma silent_step:
  assumes "processed_alone p a = Ret b" "unat (m_updateAge a) < 120" "silent n b c"
  shows "silent (Suc n) a c"
proof -
  have "m_updateAge a + 1 = AC_NO_FLARM_THRESHOLD \<longleftrightarrow> unat (m_updateAge a) + 1 = 4"
    using unat_age_Suc [OF assms(2)]
    by (simp add: AC_NO_FLARM_THRESHOLD_def OBJ_OUTDATED_def word_unat_eq_iff)
  then show ?thesis
    using processed_alone_fields [OF assms(1)] unat_age_Suc [OF assms(2)] assms(3)
    by (auto simp: silent_def)
qed

lemma process_runs_silent:
  assumes "ad_inv d" "process_runs refs d = Ret d'" "ad_lookup d k = Some a" "unat (m_updateAge a) < 120"
  shows "if unat (m_updateAge a) + length refs < 120
    then \<exists>b. ad_lookup d' k = Some b \<and> silent (length refs) a b else ad_lookup d' k = None"
  using assms
proof (induction refs arbitrary: d a)
  case Nil
  then show ?case by (auto simp: silent_def)
next
  case (Cons r refs)
  obtain pos atmPress where r: "r = (pos, atmPress)" by (cases r)
  with Cons.prems obtain e where e: "processAircrafts pos atmPress d = Ret e" "process_runs refs e = Ret d'"
    by (auto elim!: obind_RetE)
  have inv: "ad_inv e" using Cons.prems(1) e(1) by (rule processAircrafts_inv)
  let ?p = "referTo pos atmPress (AircraftProcessor_new (m_maxDistance (ad_processor d)))"
  note entry = processAircrafts_entry [OF Cons.prems(1) e(1), of k]
  show ?case
  proof (cases "alive (tick a)")
    case False
    with entry Cons.prems(3) process_runs_None [OF inv e(2)] alive_tick_iff [OF Cons.prems(4)] show ?thesis by auto
  next
    case True
    then have age: "unat (m_updateAge a) + 1 < 120" using alive_tick_iff [OF Cons.prems(4)] by blast
    from True entry Cons.prems(3) obtain b where
      b: "processed_alone ?p a = Ret b" and look: "ad_lookup e k = Some b" by auto
    then have "unat (m_updateAge b) = unat (m_updateAge a) + 1"
      using processed_alone_fields(1) [OF b] unat_age_Suc [OF Cons.prems(4)] by simp
    then show ?thesis
      using Cons.IH [OF inv e(2) look] silent_step [OF b Cons.prems(4)] age by auto
  qed
qed

lemma process_runs_inv: "ad_inv d \<Longrightarrow> process_runs refs d = Ret d' \<Longrightarrow> ad_inv d'"
  by (induction refs arbitrary: d) (auto elim!: obind_RetE, metis processAircrafts_inv)

section \<open>Properties\<close>


text \<open>The store that holds one aircraft of a given age, for the examples below.\<close>

definition sample_aircraft :: "uint32 \<Rightarrow> targetType \<Rightarrow> aircraft" where
  "sample_aircraft age tt =
     (Aircraft_new 1)\<lparr>m_updateAge := age, ac_id := ''DDA5BA'', ac_targetType := tt,
        ac_timeStamp := TimeStamp 43200000 58000\<rparr>"

definition sample_store :: "uint32 \<Rightarrow> targetType \<Rightarrow> aircraftData" where
  "sample_store age tt = AircraftData_insert (sample_aircraft age tt) (AircraftData_new 10000)"

lemma sample_store_reach: "ad_reach 10000 (sample_store age tt)"
  by (rule ad_reach.update [OF ad_reach.new, where x = "DAircraft (sample_aircraft age tt)" and b = True])
     (simp add: sample_store_def AircraftData_update_def AircraftData_new_def)

lemma sample_store_lookup: "ad_lookup (sample_store age tt) ''DDA5BA'' = Some (sample_aircraft age tt)"
  by (simp add: sample_store_def ad_lookup_def AircraftData_insert_def AircraftData_new_def sample_aircraft_def)

lemma sample_store_dead:
  "omap ad_container (processAircrafts_ref pos atmPress (sample_store 119 tt)) = Ret []"
  by (simp add: processAircrafts_ref_def sample_store_def AircraftData_insert_def AircraftData_new_def
      alive_tick_iff sample_aircraft_def)

lemma sample_store_run: "\<exists>d'. process_runs [(pos, atmPress)] (sample_store 119 tt) = Ret d'"
  using sample_store_dead [of pos atmPress tt] ad_reach_inv [OF sample_store_reach [of 119 tt]]
  by (auto simp: processAircrafts_ref_eq omap_eq_Ret_conv)

text \<open>
  C4: in every state the container can reach, no aircraft id occurs twice, and the hash map sends an
  id to a position exactly if the aircraft at that position of the vector has that id.
\<close>

theorem AircraftData_index_exact:
  assumes "ad_reach maxDist d"
  shows "distinct (ids d) \<and>
    (\<forall>k i. ad_index d k = Some i \<longleftrightarrow> i < length (ad_container d) \<and> ac_id (ad_container d ! i) = k)"
proof -
  have inv: "ad_inv d" using ad_reach_inv [OF assms] by blast
  then have "ad_index d k = Some i \<longleftrightarrow> i < length (ad_container d) \<and> ac_id (ad_container d ! i) = k" for k i
    using index_of_SomeD [of "ids d" k i] index_of_nth [of "ids d" i] by (auto simp: ad_inv_def)
  then show ?thesis using inv by (simp add: ad_inv_def)
qed

theorem AircraftData_index_exact_witness:
  "ad_reach 10000 (sample_store 0 FLARM) \<and> distinct (ids (sample_store 0 FLARM)) \<and>
   ad_index (sample_store 0 FLARM) ''DDA5BA'' = Some 0"
  using AircraftData_index_exact [OF sample_store_reach [of 0 FLARM]] sample_store_reach
  by (simp add: sample_store_def AircraftData_insert_def AircraftData_new_def sample_aircraft_def)

text \<open>
  C2: the loop that erases while it iterates, with its hand-kept iterator, counter and repaired hash
  map, computes the same as the plain description: age all aircrafts, drop those that reached the
  deletion age, process the remaining ones in order and number them from zero.
\<close>

theorem processAircrafts_equals_reference:
  assumes "ad_reach maxDist d"
  shows "processAircrafts pos atmPress d = processAircrafts_ref pos atmPress d"
  using ad_reach_inv [OF assms] by (blast intro: processAircrafts_ref_eq)

theorem processAircrafts_equals_reference_witness:
  "processAircrafts Position_zero ICAO_STD_A (sample_store 119 FLARM) =
     processAircrafts_ref Position_zero ICAO_STD_A (sample_store 119 FLARM) \<and>
   omap ad_container (processAircrafts_ref Position_zero ICAO_STD_A (sample_store 119 FLARM)) = Ret []"
  using processAircrafts_equals_reference [OF sample_store_reach [of 119 FLARM]] sample_store_dead by simp

text \<open>
  C9: an update is the update of a map from ids to aircrafts: an unknown aircraft is inserted, a known
  one is replaced if the report may replace it, and nothing else changes. In a reachable state the
  update always returns, with the value that tells whether the map changed.
\<close>

theorem AircraftData_update_refines:
  assumes "ad_reach maxDist d"
  shows "\<exists>d'. AircraftData_update (DAircraft u) d = Ret (fst (ad_spec_update u (ad_lookup d)), d') \<and>
    ad_lookup d' = snd (ad_spec_update u (ad_lookup d))"
  by (rule update_refines [OF assms])

theorem AircraftData_update_refines_witness:
  "\<exists>d'. AircraftData_update (DAircraft (sample_aircraft 0 FLARM)) (sample_store 0 FLARM) = Ret (False, d') \<and>
    ad_lookup d' = ad_lookup (sample_store 0 FLARM)"
proof -
  have "\<not> Aircraft_canUpdate (sample_aircraft 0 FLARM) (sample_aircraft 0 FLARM)" by code_simp
  moreover have "ac_id (sample_aircraft 0 FLARM) = ''DDA5BA''" by (simp add: sample_aircraft_def)
  ultimately show ?thesis
    using AircraftData_update_refines [OF sample_store_reach, of "sample_aircraft 0 FLARM" 0 FLARM]
    by (simp add: ad_spec_update_def sample_store_lookup)
qed

text \<open>
  C10: a run of the processing loop acts on each aircraft of the map separately, as if it were the only
  one and the processor had just been created: the outcome does not depend on the other aircrafts,
  their order, or the values left in the processor. The run returns if the processing of each
  surviving aircraft on its own does.
\<close>

theorem processAircrafts_refines:
  assumes "ad_reach maxDist d"
    and "\<forall>k a. ad_lookup d k = Some a \<and> alive (tick a) \<longrightarrow>
      (\<exists>b. processed_alone (referTo pos atmPress (AircraftProcessor_new maxDist)) a = Ret b)"
  shows "\<exists>d'. processAircrafts pos atmPress d = Ret d' \<and>
    ad_lookup d' = ad_spec_process maxDist pos atmPress (ad_lookup d)"
  using ad_reach_inv [OF assms(1)] processAircrafts_total [of d pos atmPress] assms(2)
    processAircrafts_lookup [of d pos atmPress] by metis

theorem processAircrafts_refines_witness:
  "\<exists>d'. processAircrafts Position_zero ICAO_STD_A (sample_store 5 FLARM) = Ret d' \<and>
    ad_lookup d' = ad_spec_process 10000 Position_zero ICAO_STD_A (ad_lookup (sample_store 5 FLARM))"
proof (rule processAircrafts_refines [OF sample_store_reach], intro allI impI)
  fix k a
  assume "ad_lookup (sample_store 5 FLARM) k = Some a \<and> alive (tick a)"
  then have "a = sample_aircraft 5 FLARM"
    by (auto simp: ad_lookup_def sample_store_def AircraftData_insert_def AircraftData_new_def split: if_splits)
  then show "\<exists>b. processed_alone (referTo Position_zero ICAO_STD_A (AircraftProcessor_new 10000)) a = Ret b"
    by (simp add: processed_alone_def process_fresh_def tick_def sample_aircraft_def Object_incr_def
        AC_NO_FLARM_THRESHOLD_def OBJ_OUTDATED_def)
qed

text \<open>
  C17: a silent aircraft is forgotten, and not too early. After \<open>n\<close> runs without a report an aircraft of
  age \<open>a\<close> is gone exactly if \<open>a + n\<close> has reached 120; until then it is kept with its time stamp and
  priority, its age has grown by \<open>n\<close>, and from age 4 on it is taken for a transponder target.
\<close>

theorem silent_aircraft_forgotten:
  assumes "ad_reach maxDist d" "ad_lookup d k = Some a" "unat (m_updateAge a) < 120"
    and "process_runs refs d = Ret d'"
  shows "if unat (m_updateAge a) + length refs < 120
    then \<exists>b. ad_lookup d' k = Some b \<and> silent (length refs) a b else ad_lookup d' k = None"
  using ad_reach_inv [OF assms(1)] process_runs_silent [OF _ assms(4) assms(2) assms(3)] by blast

theorem silent_aircraft_forgotten_witness:
  "\<exists>d'. process_runs [(Position_zero, ICAO_STD_A)] (sample_store 119 FLARM) = Ret d' \<and>
    ad_lookup d' ''DDA5BA'' = None"
proof -
  obtain d' where d': "process_runs [(Position_zero, ICAO_STD_A)] (sample_store 119 FLARM) = Ret d'"
    using sample_store_run by blast
  have "unat (m_updateAge (sample_aircraft 119 FLARM)) = 119" by (simp add: sample_aircraft_def)
  then show ?thesis
    using d' silent_aircraft_forgotten [OF sample_store_reach sample_store_lookup _ d'] by simp
qed

text \<open>
  C18: a FLARM target is not overwritten by transponder reports, whatever their priority, until it has
  been silent for four runs; from then on the next report with a later time stamp is taken.
\<close>

theorem flarm_target_takeover:
  assumes "ad_reach maxDist d" "ad_lookup d k = Some a" "ac_targetType a = FLARM" "m_updateAge a = 0"
    and "process_runs refs d = Ret d'" "length refs < 120"
    and "ac_id u = k" "ac_targetType u = TRANSPONDER" "ac_timeStamp u > ac_timeStamp a"
  shows "\<exists>d''. AircraftData_update (DAircraft u) d' = Ret (4 \<le> length refs, d'') \<and>
    (length refs < 4 \<longrightarrow> d'' = d')"
proof -
  have inv: "ad_inv d" using ad_reach_inv [OF assms(1)] by blast
  obtain b where b: "ad_lookup d' k = Some b" "silent (length refs) a b"
    using process_runs_silent [OF inv assms(5, 2)] assms(4, 6) by auto
  then obtain i where i: "ad_index d' k = Some i" "ad_container d' ! i = b"
    by (auto simp: ad_lookup_def)
  have "ad_inv d'" by (rule process_runs_inv [OF inv assms(5)])
  then have len: "i < length (ad_container d')"
    using i(1) index_of_SomeD [of "ids d'" k i] by (auto simp: ad_inv_def)
  have "Aircraft_canUpdate u b \<longleftrightarrow> 4 \<le> length refs"
    using b(2) assms(3, 4, 8, 9)
    by (auto simp: silent_def Aircraft_canUpdate_def Object_canUpdate_def OBJ_OUTDATED_def word_le_nat_alt)
  then show ?thesis
    using i len assms(7) by (auto simp: AircraftData_update_def Aircraft_tryUpdate_eq)
qed


theorem flarm_target_takeover_witness:
  "\<exists>d''. AircraftData_update (DAircraft ((sample_aircraft 0 TRANSPONDER)\<lparr>ac_timeStamp := TimeStamp 43201000 58000\<rparr>))
      (sample_store 0 FLARM) = Ret (False, d'') \<and> d'' = sample_store 0 FLARM"
proof -
  let ?u = "(sample_aircraft 0 TRANSPONDER)\<lparr>ac_timeStamp := TimeStamp 43201000 58000\<rparr>"
  have "ac_timeStamp (sample_aircraft 0 FLARM) < ac_timeStamp ?u" by code_simp
  then show ?thesis
    using flarm_target_takeover [OF sample_store_reach sample_store_lookup, of 0 FLARM "[]" _ ?u]
    by (simp add: sample_aircraft_def)
qed

text \<open>
  The text handed to the clients is the concatenation, in the order of insertion, of the sentences
  of the aircrafts that were heard of within the last four runs; it is appended to the destination.
\<close>

lemma AircraftData_get_serialized_concat:
  "AircraftData_get_serialized d dest =
     dest @ concat (map m_serialized (filter (\<lambda>a. unat (m_updateAge a) < 4) (ad_container d)))"
proof -
  have "serialize_loop as s = s @ concat (map m_serialized (filter (\<lambda>a. unat (m_updateAge a) < 4) as))"
    for as s
    by (induction as s rule: serialize_loop.induct) (simp_all add: OBJ_OUTDATED_def word_less_nat_alt)
  then show ?thesis by (simp add: AircraftData_get_serialized_def)
qed

end
