(* ===== verification/Data_Stores.thy ===== *)
theory Data_Stores
  imports Data_AircraftSpec
begin

text \<open>
  \<open>include/data/Data.hpp\<close> and the stores of the GPS position, the atmosphere and the wind
  (\<open>src/data/GpsData.cpp\<close>, \<open>AtmosphereData.cpp\<close>, \<open>WindData.cpp\<close>). Their shared interface is the locale
  \<open>data_store\<close>, which all four stores of the program interpret.
\<close>

section \<open>The GPS position\<close>

definition GPS_NR_SATS_GOOD :: uint8 where "GPS_NR_SATS_GOOD = 7"
definition GPS_FIX_GOOD :: int where "GPS_FIX_GOOD = 1"
definition GPS_HOR_DILUTION_GOOD :: double where "GPS_HOR_DILUTION_GOOD = dlit 1"

record gpsData =
  gd_processor :: gpsProcessor
  gd_position :: gpsPosition
  gd_positionLocked :: bool
  gd_groundMode :: bool

text \<open>Every call of the processor reads the clock; its reading is the argument \<open>utc\<close>.\<close>

definition gd_process :: "tm \<Rightarrow> gpsData \<Rightarrow> gpsData" where
  "gd_process utc d =
     (let (pos, p) = GpsProcessor_process utc (gd_position d) (gd_processor d)
      in d\<lparr>gd_position := pos, gd_processor := p\<rparr>)"

definition GpsData_new :: "tm \<Rightarrow> gpsPosition \<Rightarrow> bool \<Rightarrow> gpsData" where
  "GpsData_new utc position ground =
     gd_process utc \<lparr>gd_processor = GpsProcessor_new, gd_position = position,
                     gd_positionLocked = False, gd_groundMode = ground\<rparr>"

definition GpsData_get_serialized :: "tm \<Rightarrow> gpsData \<Rightarrow> string \<Rightarrow> string \<times> gpsData" where
  "GpsData_get_serialized utc d0 dest =
     (let d1 = gd_process utc d0; d = d1\<lparr>gd_position := Object_incr (gd_position d1)\<rparr>
      in (dest @ m_serialized (gd_position d), d))"

definition isPositionGood :: "gpsData \<Rightarrow> bool" where
  "isPositionGood d \<longleftrightarrow>
     gps_nrOfSatellites (gd_position d) \<ge> GPS_NR_SATS_GOOD \<and>
     gps_fixQuality (gd_position d) \<ge> GPS_FIX_GOOD \<and>
     d_le (gps_dilution (gd_position d)) GPS_HOR_DILUTION_GOOD"

text \<open>An exception leaves the object in the state it has reached, so the state is always returned.\<close>

definition GpsData_update :: "tm \<Rightarrow> dyn_object \<Rightarrow> gpsData \<Rightarrow> bool outcome \<times> gpsData" where
  "GpsData_update utc x d =
     (if gd_positionLocked d then (Throw PositionAlreadyLocked, d)
      else let (updated, pos) = GpsPosition_tryUpdate (gd_position d) x;
               d1 = d\<lparr>gd_position := pos\<rparr>
           in if updated then
                let d2 = gd_process utc d1
                in if gd_groundMode d2 \<and> isPositionGood d2 then (Throw ReceivedGoodPosition, d2)
                   else (Ret updated, d2)
              else (Ret updated, d1))"

definition GpsData_get_position :: "gpsData \<Rightarrow> position" where
  "GpsData_get_position d = gps_position (gd_position d)"

section \<open>The atmosphere\<close>

record atmosphereData = atd_atmosphere :: atmosphere

definition AtmosphereData_new :: "atmosphere \<Rightarrow> atmosphereData" where
  "AtmosphereData_new a = \<lparr>atd_atmosphere = a\<rparr>"

definition AtmosphereData_get_serialized :: "atmosphereData \<Rightarrow> string \<Rightarrow> string \<times> atmosphereData" where
  "AtmosphereData_get_serialized d dest =
     (let a = Object_incr (atd_atmosphere d) in (dest @ m_serialized a, d\<lparr>atd_atmosphere := a\<rparr>))"

definition AtmosphereData_update :: "dyn_object \<Rightarrow> atmosphereData \<Rightarrow> bool outcome \<times> atmosphereData" where
  "AtmosphereData_update x d =
     (let (b, a) = Atmosphere_tryUpdate (atd_atmosphere d) x in (Ret b, d\<lparr>atd_atmosphere := a\<rparr>))"

definition get_atmPressure :: "atmosphereData \<Rightarrow> double" where
  "get_atmPressure d = atm_pressure (atd_atmosphere d)"

section \<open>The wind\<close>

record windData = wd_wind :: wind

definition WindData_new :: "wind \<Rightarrow> windData" where
  "WindData_new w = \<lparr>wd_wind = w\<rparr>"

definition WindData_get_serialized :: "windData \<Rightarrow> string \<Rightarrow> string \<times> windData" where
  "WindData_get_serialized d dest =
     (let w = Object_incr (wd_wind d)
      in (dest @ m_serialized w, d\<lparr>wd_wind := w\<lparr>m_serialized := []\<rparr>\<rparr>))"

definition WindData_update :: "dyn_object \<Rightarrow> windData \<Rightarrow> bool outcome \<times> windData" where
  "WindData_update x d =
     (let (b, w) = Wind_tryUpdate (wd_wind d) x in (Ret b, d\<lparr>wd_wind := w\<rparr>))"

section \<open>The interface\<close>

text \<open>
  The class \<open>Data\<close>. \<open>accepts\<close> says which objects a store is fed with, \<open>inv\<close> which states it can be
  in. A store appends its text to the destination, keeps its invariant, has a meaning for every
  accepted update and does not change when it refuses one.
\<close>

locale data_store =
  fixes get_serialized :: "'s \<Rightarrow> string \<Rightarrow> string \<times> 's"
    and update :: "dyn_object \<Rightarrow> 's \<Rightarrow> bool outcome \<times> 's"
    and inv :: "'s \<Rightarrow> bool"
    and accepts :: "dyn_object \<Rightarrow> bool"
  assumes appends: "get_serialized s dest = (dest @ fst (get_serialized s []), snd (get_serialized s []))"
    and get_inv: "inv s \<Longrightarrow> inv (snd (get_serialized s dest))"
    and update_inv: "inv s \<Longrightarrow> accepts x \<Longrightarrow> inv (snd (update x s))"
    and update_defined: "inv s \<Longrightarrow> accepts x \<Longrightarrow> fst (update x s) \<noteq> UB"
    and update_refused: "inv s \<Longrightarrow> accepts x \<Longrightarrow> fst (update x s) = Ret False \<Longrightarrow> snd (update x s) = s"
begin

text \<open>Sequences of calls: \<open>Inl x\<close> is an update with \<open>x\<close>, \<open>Inr ()\<close> asks for the text.\<close>

fun run :: "(dyn_object + unit) list \<Rightarrow> 's \<Rightarrow> 's" where
  "run [] s = s"
| "run (Inl x # ops) s = run ops (snd (update x s))"
| "run (Inr _ # ops) s = run ops (snd (get_serialized s []))"

definition fed :: "(dyn_object + unit) list \<Rightarrow> bool" where
  "fed ops \<longleftrightarrow> (\<forall>x. Inl x \<in> set ops \<longrightarrow> accepts x)"

lemma run_inv: "inv s \<Longrightarrow> fed ops \<Longrightarrow> inv (run ops s)"
  by (induction ops s rule: run.induct) (auto simp: fed_def intro: update_inv get_inv)

lemma run_then_update_defined: "inv s \<Longrightarrow> fed ops \<Longrightarrow> accepts x \<Longrightarrow> fst (update x (run ops s)) \<noteq> UB"
  using run_inv update_defined by blast

lemma run_refused:
  "inv s \<Longrightarrow> fed ops \<Longrightarrow> accepts x \<Longrightarrow> fst (update x (run ops s)) = Ret False \<Longrightarrow>
     run (ops @ [Inl x]) s = run ops s"
proof -
  assume "inv s" "fed ops" "accepts x" "fst (update x (run ops s)) = Ret False"
  moreover have "run (ops @ [Inl x]) s = snd (update x (run ops s))"
    by (induction ops s rule: run.induct) simp_all
  ultimately show ?thesis using run_inv update_refused by simp
qed

lemma text_independent: "fst (get_serialized s dest) = dest @ fst (get_serialized s [])"
  by (subst appends) simp

end

text \<open>The classes of objects the feeds hand to the stores.\<close>

fun is_aircraft :: "dyn_object \<Rightarrow> bool" where
  "is_aircraft (DAircraft _) = True" | "is_aircraft _ = False"

fun is_gpsPosition :: "dyn_object \<Rightarrow> bool" where
  "is_gpsPosition (DGpsPosition _) = True" | "is_gpsPosition _ = False"

fun is_atmosphere :: "dyn_object \<Rightarrow> bool" where
  "is_atmosphere (DAtmosphere _) = True" | "is_atmosphere _ = False"

fun is_wind :: "dyn_object \<Rightarrow> bool" where
  "is_wind (DWind _) = True" | "is_wind _ = False"

text \<open>The container of aircrafts in the shape of the interface.\<close>

definition aircraft_get :: "aircraftData \<Rightarrow> string \<Rightarrow> string \<times> aircraftData" where
  "aircraft_get d dest = (AircraftData_get_serialized d dest, d)"

definition aircraft_update :: "dyn_object \<Rightarrow> aircraftData \<Rightarrow> bool outcome \<times> aircraftData" where
  "aircraft_update x d =
     (case AircraftData_update x d of
        Ret (b, d') \<Rightarrow> (Ret b, d') | Throw e \<Rightarrow> (Throw e, d) | UB \<Rightarrow> (UB, d))"

lemma serialize_loop_append: "serialize_loop as dest = dest @ serialize_loop as []"
proof (induction as arbitrary: dest)
  case (Cons a as)
  show ?case
    by (subst (1 2) serialize_loop.simps) (subst (1 2) Cons.IH, simp)
qed simp

interpretation aircrafts: data_store aircraft_get aircraft_update ad_inv is_aircraft
proof
  fix s dest
  show "aircraft_get s dest = (dest @ fst (aircraft_get s []), snd (aircraft_get s []))"
    using serialize_loop_append [of "ad_container s" dest]
    by (simp add: aircraft_get_def AircraftData_get_serialized_def)
  show "ad_inv s \<Longrightarrow> ad_inv (snd (aircraft_get s dest))" by (simp add: aircraft_get_def)
next
  fix s x
  assume s: "ad_inv s" "is_aircraft x"
  then obtain u where x: "x = DAircraft u" by (cases x) auto
  obtain b d' where r: "AircraftData_update x s = Ret (b, d')"
    using AircraftData_update_defined [OF s(1), of u] x by blast
  show "ad_inv (snd (aircraft_update x s))"
    using AircraftData_update_inv [OF s(1) r] r by (simp add: aircraft_update_def)
  show "fst (aircraft_update x s) \<noteq> UB" using r by (simp add: aircraft_update_def)
  show "snd (aircraft_update x s) = s" if "fst (aircraft_update x s) = Ret False"
    using r that
  proof (cases rule: AircraftData_update_cases)
    case (update u i)
    then show ?thesis using r that
      by (simp add: aircraft_update_def Aircraft_tryUpdate_eq split: if_splits)
  qed (use r that in \<open>simp add: aircraft_update_def\<close>)
qed

lemma gd_process_simps [simp]:
  "gd_positionLocked (gd_process utc d) = gd_positionLocked d"
  "gd_groundMode (gd_process utc d) = gd_groundMode d"
  "gps_position (gd_position (gd_process utc d)) = gps_position (gd_position d)"
  "gps_timeStamp (gd_position (gd_process utc d)) = gps_timeStamp (gd_position d)"
  "m_lastPriority (gd_position (gd_process utc d)) = m_lastPriority (gd_position d)"
  "m_updateAge (gd_position (gd_process utc d)) = m_updateAge (gd_position d)"
  "isPositionGood (gd_process utc d) = isPositionGood d"
  by (simp_all add: gd_process_def GpsProcessor_process_def Let_def isPositionGood_def)

interpretation gps: data_store "GpsData_get_serialized utc" "GpsData_update utc"
  "\<lambda>d. \<not> gd_positionLocked d" is_gpsPosition for utc
proof
  fix s :: gpsData and x
  assume s: "\<not> gd_positionLocked s" "is_gpsPosition x"
  then obtain u where x: "x = DGpsPosition u" by (cases x) auto
  show "\<not> gd_positionLocked (snd (GpsData_update utc x s))" "fst (GpsData_update utc x s) \<noteq> UB"
    using s by (simp_all add: GpsData_update_def Let_def x GpsPosition_tryUpdate_eq)
  show "snd (GpsData_update utc x s) = s" if "fst (GpsData_update utc x s) = Ret False"
    using that s by (auto simp: GpsData_update_def Let_def x GpsPosition_tryUpdate_eq split: if_splits)
qed (simp_all add: GpsData_get_serialized_def Let_def)

interpretation atmospheres: data_store AtmosphereData_get_serialized AtmosphereData_update
  "\<lambda>_. True" is_atmosphere
proof
  fix s x
  assume "is_atmosphere x"
  then obtain u where "x = DAtmosphere u" by (cases x) auto
  then show "fst (AtmosphereData_update x s) = Ret False \<Longrightarrow> snd (AtmosphereData_update x s) = s"
    by (auto simp: AtmosphereData_update_def Atmosphere_tryUpdate_eq split: if_splits)
qed (simp_all add: AtmosphereData_get_serialized_def AtmosphereData_update_def Let_def split: prod.split)

interpretation winds: data_store WindData_get_serialized WindData_update "\<lambda>_. True" is_wind
proof
  fix s x
  assume "is_wind x"
  then obtain u where "x = DWind u" by (cases x) auto
  then show "fst (WindData_update x s) = Ret False \<Longrightarrow> snd (WindData_update x s) = s"
    by (auto simp: WindData_update_def Wind_tryUpdate_eq split: if_splits)
qed (simp_all add: WindData_get_serialized_def WindData_update_def Let_def split: prod.split)

section \<open>Properties\<close>

text \<open>The states of the GPS store: created, updated and read, with any clock.\<close>

inductive gd_reach :: "bool \<Rightarrow> gpsData \<Rightarrow> bool" for ground where
  new: "gd_reach ground (GpsData_new utc pos ground)"
| update: "gd_reach ground d \<Longrightarrow> gd_reach ground (snd (GpsData_update utc x d))"
| get: "gd_reach ground d \<Longrightarrow> gd_reach ground (snd (GpsData_get_serialized utc d dest))"

lemma gd_reach_inv: "gd_reach ground d \<Longrightarrow> \<not> gd_positionLocked d \<and> gd_groundMode d = ground"
  by (induction rule: gd_reach.induct)
     (auto simp: GpsData_new_def GpsData_update_def GpsData_get_serialized_def Let_def split: prod.split)

text \<open>
  C19: an update of the GPS store is refused without effect if the report may not replace the stored
  position. Otherwise the position becomes the reported one, and in ground mode a report with enough
  satellites, a fix and a small dilution raises \<open>ReceivedGoodPosition\<close>. The store never counts as
  locked: \<open>PositionAlreadyLocked\<close> is not raised, and reports that follow a good one are still taken.
\<close>

theorem GpsData_update_effect:
  assumes "gd_reach ground d" "GpsData_update utc (DGpsPosition u) d = (r, d')"
  shows "if GpsPosition_canUpdate u (gd_position d)
    then GpsData_get_position d' = gps_position u \<and>
      r = (if ground \<and> 7 \<le> unat (gps_nrOfSatellites u) \<and> 1 \<le> gps_fixQuality u \<and> d_le (gps_dilution u) (dlit 1)
           then Throw ReceivedGoodPosition else Ret True)
    else r = Ret False \<and> d' = d"
proof -
  have "gps_position (GpsPosition_assign a u) = gps_position u" for a
    by (simp add: GpsPosition_assign_def)
  moreover have "isPositionGood (d\<lparr>gd_position := GpsPosition_assign a u\<rparr>) \<longleftrightarrow>
    7 \<le> unat (gps_nrOfSatellites u) \<and> 1 \<le> gps_fixQuality u \<and> d_le (gps_dilution u) (dlit 1)" for a
    by (simp add: isPositionGood_def GpsPosition_assign_def GPS_NR_SATS_GOOD_def GPS_FIX_GOOD_def
        GPS_HOR_DILUTION_GOOD_def word_le_nat_alt)
  ultimately show ?thesis
    using gd_reach_inv [OF assms(1)] assms(2)
    by (auto simp: GpsData_update_def Let_def GpsPosition_tryUpdate_eq GpsData_get_position_def split: if_splits)
qed

definition sample_tm :: tm where
  "sample_tm = \<lparr>tm_hour = 12, tm_min = 0, tm_sec = 0, tm_mday = 24, tm_mon = 11, tm_year = 118\<rparr>"

definition sample_fix :: gpsPosition where
  "sample_fix = (GpsPosition_new 1)\<lparr>gps_nrOfSatellites := 9, gps_fixQuality := 1,
     gps_timeStamp := TimeStamp 43200000 58000, gps_dilution := dlit 0.9\<rparr>"

theorem GpsData_update_effect_witness:
  "fst (GpsData_update sample_tm (DGpsPosition sample_fix) (GpsData_new sample_tm (GpsPosition_new 0) True)) =
     Throw ReceivedGoodPosition"
proof -
  let ?d = "GpsData_new sample_tm (GpsPosition_new 0) True"
  obtain r d' where r: "GpsData_update sample_tm (DGpsPosition sample_fix) ?d = (r, d')"
    by (cases "GpsData_update sample_tm (DGpsPosition sample_fix) ?d")
  have "GpsPosition_canUpdate sample_fix (GpsPosition_new 0)" by code_simp
  then have "GpsPosition_canUpdate sample_fix (gd_position ?d)"
    by (simp add: GpsPosition_canUpdate_def Object_canUpdate_def GpsData_new_def)
  moreover have "d_le (gps_dilution sample_fix) (dlit 1)" by code_simp
  ultimately show ?thesis
    using GpsData_update_effect [OF gd_reach.new r] r by (simp add: sample_fix_def)
qed

text \<open>
  A wind sentence is delivered at most once: after the text was fetched, fetching again yields
  nothing until a new report is accepted, and then exactly the text of that report.
\<close>

lemma wind_delivered_once:
  "fst (WindData_get_serialized (snd (WindData_get_serialized d dest)) []) = [] \<and>
   fst (WindData_get_serialized (snd (WindData_update (DWind w) (snd (WindData_get_serialized d dest)))) []) =
     (if fst (WindData_update (DWind w) (snd (WindData_get_serialized d dest))) = Ret True
      then m_serialized w else [])"
  by (auto simp: WindData_get_serialized_def WindData_update_def Wind_tryUpdate_eq Let_def Object_assign_def)

definition atm_after :: "nat \<Rightarrow> atmosphereData \<Rightarrow> atmosphereData" where
  "atm_after n d = ((\<lambda>d. snd (AtmosphereData_get_serialized d [])) ^^ n) d"

lemma atm_after_fields:
  "atd_atmosphere (atm_after n d) =
     (atd_atmosphere d)\<lparr>m_updateAge := m_updateAge (atd_atmosphere d) + of_nat n\<rparr>"
  by (induction n) (simp_all add: atm_after_def AtmosphereData_get_serialized_def Let_def Object_incr_def)

text \<open>
  Priorities of the atmosphere feed: after a report was accepted and its text fetched \<open>n\<close> times, a
  report is accepted exactly if its priority is not lower or the stored one has been fetched at least
  four times since. Accepting it makes its pressure the current one.
\<close>

lemma atmosphere_takeover:
  assumes "AtmosphereData_update (DAtmosphere a) d0 = (Ret True, d)" "n < 2 ^ 32"
    and "AtmosphereData_update (DAtmosphere u) (atm_after n d) = (r, d')"
  shows "r = Ret (m_lastPriority a \<le> m_lastPriority u \<or> 4 \<le> n) \<and>
    get_atmPressure d' = (if r = Ret True then atm_pressure u else atm_pressure a)"
proof -
  have d: "atd_atmosphere d = Atmosphere_assign (atd_atmosphere d0) a"
    using assms(1) by (auto simp: AtmosphereData_update_def Atmosphere_tryUpdate_eq split: if_splits)
  have "unat (of_nat n :: uint32) = n" using assms(2) by (simp add: unat_of_nat)
  then have "4 \<le> n \<longleftrightarrow> (4 :: uint32) \<le> of_nat n" by (simp add: word_le_nat_alt)
  then show ?thesis
    using assms(3) d
    by (auto simp: AtmosphereData_update_def Atmosphere_tryUpdate_eq atm_after_fields Atmosphere_assign_def
        Object_assign_def Object_canUpdate_def OBJ_OUTDATED_def get_atmPressure_def split: if_splits)
qed

lemma atmosphere_takeover_sample:
  "fst (AtmosphereData_update (DAtmosphere (Atmosphere_with (dlit 1000) 1))
     (atm_after 3 (AtmosphereData_new (Atmosphere_with (dlit 990) 2)))) = Ret False \<and>
   fst (AtmosphereData_update (DAtmosphere (Atmosphere_with (dlit 1000) 1))
     (atm_after 4 (AtmosphereData_new (Atmosphere_with (dlit 990) 2)))) = Ret True"
proof -
  let ?d0 = "AtmosphereData_new (Atmosphere_with (dlit 990) 2)" and ?u = "Atmosphere_with (dlit 1000) 1"
  have a: "AtmosphereData_update (DAtmosphere (Atmosphere_with (dlit 990) 2)) ?d0 = (Ret True, ?d0)"
    by (simp add: AtmosphereData_update_def Atmosphere_tryUpdate_eq AtmosphereData_new_def
        Atmosphere_assign_def Object_assign_def Object_canUpdate_def Atmosphere_with_def Atmosphere_new_def
        Object_new_def object.defs atmosphere.defs)
  have "\<not> m_lastPriority (Atmosphere_with (dlit 990) 2) \<le> m_lastPriority ?u" by code_simp
  then show ?thesis
    using atmosphere_takeover [OF a, of 3 ?u] atmosphere_takeover [OF a, of 4 ?u]
    by (cases "AtmosphereData_update (DAtmosphere ?u) (atm_after 3 ?d0)",
        cases "AtmosphereData_update (DAtmosphere ?u) (atm_after 4 ?d0)") simp
qed

end
