(* ===== verification/Regex.thy ===== *)
theory Regex
  imports Cpp_String
begin

text \<open>
  The regular expressions of the parsers, as data. The engine that matches them (\<open>boost::regex\<close>) is a
  parameter of the parsers; what they rely on is the locale \<open>regex_engine\<close>: a match is a match of the
  expression's language, and nothing in the language is missed. A backtracking matcher that follows the
  documented Perl order shows that the locale can be interpreted, and evaluates examples.
\<close>

section \<open>Expressions\<close>

text \<open>
  Character classes; a set is a list of ranges and ignores the case, as the flag \<open>icase\<close> demands.
\<close>

datatype cls = CDigit | CSpace | CNonSpace | CAny | CSet "(char \<times> char) list"

definition upper :: "char \<Rightarrow> char" where
  "upper c = (let n = (of_char c :: nat) in if 97 \<le> n \<and> n \<le> 122 then char_of (n - 32) else c)"

definition in_range :: "char \<Rightarrow> char \<times> char \<Rightarrow> bool" where
  "in_range c r \<longleftrightarrow> (of_char (fst r) :: nat) \<le> of_char c \<and> (of_char c :: nat) \<le> of_char (snd r)"

fun in_cls :: "cls \<Rightarrow> char \<Rightarrow> bool" where
  "in_cls CDigit c = in_range c (CHR ''0'', CHR ''9'')"
| "in_cls CSpace c = is_space c"
| "in_cls CNonSpace c = (\<not> is_space c)"
| "in_cls CAny c = True"
| "in_cls (CSet rs) c = list_ex (\<lambda>r. in_range c r \<or> in_range (lower c) r \<or> in_range (upper c) r) rs"

text \<open>
  \<open>Rep c m n lazy\<close> repeats a class at least \<open>m\<close> and at most \<open>n\<close> times, \<open>Grp\<close> is a numbered
  capture; the expressions of the sources need no other repetition.
\<close>

datatype regex =
    Eps
  | Cls cls
  | Rep cls nat "nat option" bool
  | Seq regex regex
  | Opt regex
  | Grp nat regex

fun seqs :: "regex list \<Rightarrow> regex" where
  "seqs [] = Eps"
| "seqs [r] = r"
| "seqs (r # rs) = Seq r (seqs rs)"

definition lits :: "string \<Rightarrow> regex" where
  "lits s = seqs (map (\<lambda>c. Cls (CSet [(c, c)])) s)"

definition digits :: "nat \<Rightarrow> regex" where
  "digits n = Rep CDigit n (Some n) False"

definition digits_plus :: regex where
  "digits_plus = Rep CDigit 1 None False"

section \<open>The language\<close>

type_synonym captures = "(nat \<times> string) list"

text \<open>\<open>match.str(i)\<close>: a group that took no part in the match is the empty string.\<close>

definition cap :: "captures \<Rightarrow> nat \<Rightarrow> string" where
  "cap m i = (case map_of m i of None \<Rightarrow> [] | Some s \<Rightarrow> s)"

fun re_in :: "regex \<Rightarrow> string \<Rightarrow> captures \<Rightarrow> bool" where
  "re_in Eps s m = (s = [] \<and> m = [])"
| "re_in (Cls c) s m = (m = [] \<and> (\<exists>x. s = [x] \<and> in_cls c x))"
| "re_in (Rep c lo hi l) s m =
     (m = [] \<and> list_all (in_cls c) s \<and> lo \<le> length s \<and>
      (case hi of None \<Rightarrow> True | Some h \<Rightarrow> length s \<le> h))"
| "re_in (Seq a b) s m =
     (\<exists>s1 s2 m1 m2. s = s1 @ s2 \<and> m = m1 @ m2 \<and> re_in a s1 m1 \<and> re_in b s2 m2)"
| "re_in (Opt a) s m = (re_in a s m \<or> (s = [] \<and> m = []))"
| "re_in (Grp i a) s m = (\<exists>m1. m = (i, s) # m1 \<and> re_in a s m1)"

text \<open>
  \<open>boost::regex_match\<close>: the whole string has to match. Which captures an ambiguous expression yields
  is left open.
\<close>

locale regex_engine =
  fixes regex_match :: "regex \<Rightarrow> string \<Rightarrow> captures option"
  assumes sound: "regex_match r s = Some m \<Longrightarrow> re_in r s m"
    and complete: "re_in r s m \<Longrightarrow> regex_match r s \<noteq> None"
begin

lemma match_iff: "(\<exists>m. regex_match r s = Some m) \<longleftrightarrow> (\<exists>m. re_in r s m)"
  using sound complete by fastforce

end

section \<open>A backtracking matcher\<close>

text \<open>All ways to match a prefix, in the order a backtracking engine tries them.\<close>

definition rep_counts :: "nat \<Rightarrow> nat option \<Rightarrow> bool \<Rightarrow> nat \<Rightarrow> nat list" where
  "rep_counts lo hi l n =
     (let top = (case hi of None \<Rightarrow> n | Some h \<Rightarrow> min h n); ks = [lo..<Suc top]
      in if l then ks else rev ks)"

fun bt :: "regex \<Rightarrow> string \<Rightarrow> (captures \<times> string) list" where
  "bt Eps s = [([], s)]"
| "bt (Cls c) s = (case s of [] \<Rightarrow> [] | x # xs \<Rightarrow> if in_cls c x then [([], xs)] else [])"
| "bt (Rep c lo hi l) s =
     map (\<lambda>k. ([], drop k s)) (rep_counts lo hi l (length (takeWhile (in_cls c) s)))"
| "bt (Seq a b) s =
     concat (map (\<lambda>(m1, r1). map (\<lambda>(m2, r2). (m1 @ m2, r2)) (bt b r1)) (bt a s))"
| "bt (Opt a) s = bt a s @ [([], s)]"
| "bt (Grp i a) s = map (\<lambda>(m, r). ((i, take (length s - length r) s) # m, r)) (bt a s)"

fun first_full :: "(captures \<times> string) list \<Rightarrow> captures option" where
  "first_full [] = None"
| "first_full ((m, r) # ms) = (if r = [] then Some m else first_full ms)"

definition bt_match :: "regex \<Rightarrow> string \<Rightarrow> captures option" where
  "bt_match r s = first_full (bt r s)"

lemma first_full_Some: "first_full ms = Some m \<Longrightarrow> (m, []) \<in> set ms"
  by (induction ms rule: first_full.induct) (auto split: if_splits)

lemma first_full_None: "first_full ms = None \<Longrightarrow> (m, []) \<notin> set ms"
  by (induction ms rule: first_full.induct) (auto split: if_splits)

lemma set_rep_counts:
  "k \<in> set (rep_counts lo hi l n) \<longleftrightarrow> lo \<le> k \<and> k \<le> n \<and> (case hi of None \<Rightarrow> True | Some h \<Rightarrow> k \<le> h)"
  by (auto simp: rep_counts_def Let_def split: option.split)

lemma takeWhile_prefix_iff:
  "k \<le> length (takeWhile P s) \<longleftrightarrow> k \<le> length s \<and> list_all P (take k s)"
proof (induction s arbitrary: k)
  case (Cons x s)
  then show ?case by (cases k) auto
qed simp

lemma in_set_bind_iff:
  "(m, r) \<in> set (concat (map (\<lambda>(m1, r1). map (\<lambda>(m2, r2). (m1 @ m2, r2)) (g r1)) xs)) \<longleftrightarrow>
     (\<exists>m1 m2 r1. (m1, r1) \<in> set xs \<and> (m2, r) \<in> set (g r1) \<and> m = m1 @ m2)"
  by (induction xs) (auto, blast+)

lemma bt_sound_complete: "(m, r) \<in> set (bt e s) \<longleftrightarrow> (\<exists>p. s = p @ r \<and> re_in e p m)"
proof (induction e arbitrary: s m r)
  case (Rep c lo hi l)
  have "(m, r) \<in> set (bt (Rep c lo hi l) s) \<longleftrightarrow>
      m = [] \<and> (\<exists>k. r = drop k s \<and> k \<le> length s \<and> list_all (in_cls c) (take k s) \<and> lo \<le> k \<and>
        (case hi of None \<Rightarrow> True | Some h \<Rightarrow> k \<le> h))"
    by (auto simp: set_rep_counts takeWhile_prefix_iff)
  also have "\<dots> \<longleftrightarrow> (\<exists>p. s = p @ r \<and> re_in (Rep c lo hi l) p m)"
  proof
    assume "m = [] \<and> (\<exists>k. r = drop k s \<and> k \<le> length s \<and> list_all (in_cls c) (take k s) \<and> lo \<le> k \<and>
      (case hi of None \<Rightarrow> True | Some h \<Rightarrow> k \<le> h))"
    then obtain k where "m = []" "r = drop k s" "k \<le> length s" "list_all (in_cls c) (take k s)" "lo \<le> k"
      "case hi of None \<Rightarrow> True | Some h \<Rightarrow> k \<le> h" by blast
    then show "\<exists>p. s = p @ r \<and> re_in (Rep c lo hi l) p m" 
      by (intro exI [of _ "take k s"]) (auto split: option.split)
  next
    assume "\<exists>p. s = p @ r \<and> re_in (Rep c lo hi l) p m"
    then obtain p where "s = p @ r" "re_in (Rep c lo hi l) p m" by blast
    then show "m = [] \<and> (\<exists>k. r = drop k s \<and> k \<le> length s \<and> list_all (in_cls c) (take k s) \<and> lo \<le> k \<and>
        (case hi of None \<Rightarrow> True | Some h \<Rightarrow> k \<le> h))" by (auto intro!: exI [of _ "length p"])
  qed
  finally show ?case .
next
  case (Seq a b)
  have "(m, r) \<in> set (bt (Seq a b) s) \<longleftrightarrow>
      (\<exists>m1 m2 r1. (m1, r1) \<in> set (bt a s) \<and> (m2, r) \<in> set (bt b r1) \<and> m = m1 @ m2)"
    unfolding bt.simps by (rule in_set_bind_iff)
  also have "\<dots> \<longleftrightarrow>
      (\<exists>m1 m2 p1 p2. s = p1 @ p2 @ r \<and> re_in a p1 m1 \<and> re_in b p2 m2 \<and> m = m1 @ m2)"
    unfolding Seq.IH by blast
  also have "\<dots> \<longleftrightarrow> (\<exists>p. s = p @ r \<and> re_in (Seq a b) p m)" by simp (metis append.assoc)
  finally show ?case .
next
  case (Grp i a)
  have "(m, r) \<in> set (bt (Grp i a) s) \<longleftrightarrow>
      (\<exists>m1. (m1, r) \<in> set (bt a s) \<and> m = (i, take (length s - length r) s) # m1)"
    by (force simp: image_iff)
  then show ?case unfolding Grp.IH by auto
qed (auto split: list.splits)

interpretation bt: regex_engine bt_match
proof
  fix e s m
  show "re_in e s m" if "bt_match e s = Some m"
    using first_full_Some [OF that [unfolded bt_match_def]] by (simp add: bt_sound_complete)
  show "bt_match e s \<noteq> None" if "re_in e s m"
    using that first_full_None [of "bt e s" m] bt_sound_complete [of m "[]" e s] by (auto simp: bt_match_def)
qed

end
