(* ===== verification/Feed_Parsers.thy ===== *)
theory Feed_Parsers
  imports Regex Util_Math Obj_Objects
begin

unbundle bit_operations_syntax

text \<open>
  \<open>include/feed/parser\<close> and \<open>src/feed/parser\<close>: the parsers of the five kinds of sentences. A parser
  changes the object it is given step by step, and an exception leaves it half filled, so a parser
  yields its result together with the object. The regular expression engine is the argument \<open>re\<close>, the
  clock that time stamps consult the arguments \<open>day\<close> and \<open>now\<close>.
\<close>

section \<open>Steps on an object\<close>

text \<open>\<open>x.set_f(\<dots>)\<close> with an argument that may throw, and one statement after another.\<close>

definition setting :: "'a outcome \<Rightarrow> ('a \<Rightarrow> 's \<Rightarrow> 's) \<Rightarrow> 's \<Rightarrow> unit outcome \<times> 's" where
  "setting r f s =
     (case r of Ret x \<Rightarrow> (Ret (), f x s) | Throw e \<Rightarrow> (Throw e, s) | UB \<Rightarrow> (UB, s))"

definition andthen ::
  "('s \<Rightarrow> unit outcome \<times> 's) \<Rightarrow> ('s \<Rightarrow> unit outcome \<times> 's) \<Rightarrow> 's \<Rightarrow> unit outcome \<times> 's" where
  "andthen a b s = (case a s of (Ret _, s1) \<Rightarrow> b s1 | (r, s1) \<Rightarrow> (r, s1))"

text \<open>
  \<open>try { steps; return true; } catch (const std::logic_error&) { return false; }\<close> in a \<open>noexcept\<close>
  function; the steps throw nothing else.
\<close>

definition succeeds :: "unit outcome \<Rightarrow> bool outcome" where
  "succeeds r = ocatch is_logic_error (omap (\<lambda>_. True) r) (Ret False)"

section \<open>Checksums\<close>

text \<open>
  The test the NMEA parsers share: the two digits behind the last \<open>*\<close> are the checksum. Without a
  \<open>*\<close> the position wraps around to zero.
\<close>

definition checksum_ok :: "string \<Rightarrow> bool outcome" where
  "checksum_ok s =
     obind (str_substr s (sz_add (str_rfind s (CHR ''*'')) 1) 2) (\<lambda>t.
     obind (stoi t 16) (\<lambda>n. Ret (n = checksum s (length s))))"

section \<open>Wind\<close>

definition WindParser_unpack :: "string \<Rightarrow> wind \<Rightarrow> bool outcome \<times> wind" where
  "WindParser_unpack s w =
     (case ocatch is_logic_error (checksum_ok s) (Ret False) of
        Ret True \<Rightarrow>
          if str_contains s ''MWV'' then (Ret True, w\<lparr>m_serialized := s\<rparr>) else (Ret False, w)
      | r \<Rightarrow> (r, w))"

section \<open>Atmosphere\<close>

text \<open>The field before \<open>,B\<close>, and the pressure it holds if it is a number as a whole.\<close>

definition mda_pressure :: "string \<Rightarrow> double option outcome" where
  "mda_pressure s =
     (let tmpB = sz_sub (str_find s (CHR ''B'') 0) 1 in
      obind (str_substr s 0 tmpB) (\<lambda>pre.
        let tmpS = sz_add (str_rfind pre (CHR '','')) 1; subLen = sz_sub tmpB tmpS in
        obind (str_substr s tmpS subLen) (\<lambda>f.
        obind (stod_idx f) (\<lambda>(v, numIdx).
          Ret (if numIdx = subLen then Some (d_mul v (dlit 1000)) else None)))))"

definition AtmosphereParser_unpack :: "string \<Rightarrow> atmosphere \<Rightarrow> bool outcome \<times> atmosphere" where
  "AtmosphereParser_unpack s a =
     (case ocatch is_logic_error
             (obind (checksum_ok s) (\<lambda>ok.
                if ok \<and> str_contains s ''MDA'' then mda_pressure s else Ret None))
             (Ret None) of
        Ret (Some p) \<Rightarrow> (Ret True, a\<lparr>m_serialized := s, atm_pressure := p\<rparr>)
      | Ret None \<Rightarrow> (Ret False, a)
      | Throw e \<Rightarrow> (Throw e, a)
      | UB \<Rightarrow> (UB, a))"

section \<open>GPS\<close>

definition number_re :: regex where
  "number_re = seqs [digits_plus, Opt (seqs [lits ''.'', digits_plus])]"

definition s_GPGGA_RE :: regex where
  "s_GPGGA_RE =
     seqs [lits ''$'', Rep (CSet [(CHR ''A'', CHR ''Z'')]) 2 (Some 2) False, lits ''GGA,'',
       Grp 1 (digits 6), lits '','',
       Grp 2 (seqs [digits 4, lits ''.'', Rep CDigit 3 (Some 4) False]), lits '','',
       Grp 3 (Cls (CSet [(CHR ''N'', CHR ''N''), (CHR ''S'', CHR ''S'')])), lits '','',
       Grp 4 (seqs [digits 5, lits ''.'', Rep CDigit 3 (Some 4) False]), lits '','',
       Grp 5 (Cls (CSet [(CHR ''E'', CHR ''E''), (CHR ''W'', CHR ''W'')])), lits '','',
       Grp 6 (Cls CDigit), lits '','', Grp 7 (digits 2), lits '','',
       Grp 8 number_re, lits '','', Grp 9 number_re, lits '',M,'',
       Grp 10 number_re, lits '',M,,*'',
       Rep (CSet [(CHR ''0'', CHR ''9''), (CHR ''A'', CHR ''F'')]) 2 (Some 2) False,
       Rep CSpace 0 None True]"

text \<open>The numbers of the groups.\<close>

abbreviation (input) RE_GGA_TIME :: nat where "RE_GGA_TIME \<equiv> 1"
abbreviation (input) RE_GGA_LAT :: nat where "RE_GGA_LAT \<equiv> 2"
abbreviation (input) RE_GGA_LAT_DIR :: nat where "RE_GGA_LAT_DIR \<equiv> 3"
abbreviation (input) RE_GGA_LON :: nat where "RE_GGA_LON \<equiv> 4"
abbreviation (input) RE_GGA_LON_DIR :: nat where "RE_GGA_LON_DIR \<equiv> 5"
abbreviation (input) RE_GGA_FIX :: nat where "RE_GGA_FIX \<equiv> 6"
abbreviation (input) RE_GGA_SAT :: nat where "RE_GGA_SAT \<equiv> 7"
abbreviation (input) RE_GGA_DIL :: nat where "RE_GGA_DIL \<equiv> 8"
abbreviation (input) RE_GGA_ALT :: nat where "RE_GGA_ALT \<equiv> 9"
abbreviation (input) RE_GGA_GEOID :: nat where "RE_GGA_GEOID \<equiv> 10"

definition signed :: "bool \<Rightarrow> double \<Rightarrow> double" where
  "signed neg v = (if neg then d_neg v else v)"

text \<open>Degrees and minutes as text, and the letter that tells the hemisphere.\<close>

definition parse_angle :: "string \<Rightarrow> string \<Rightarrow> string \<Rightarrow> double outcome" where
  "parse_angle dm dir neg = omap (\<lambda>v. signed (dir = neg) (dmToDeg v)) (stod dm)"

definition gga_position :: "captures \<Rightarrow> position outcome" where
  "gga_position m =
     obind (parse_angle (cap m RE_GGA_LAT) (cap m RE_GGA_LAT_DIR) ''S'') (\<lambda>lat.
     obind (parse_angle (cap m RE_GGA_LON) (cap m RE_GGA_LON_DIR) ''W'') (\<lambda>lon.
     obind (stod (cap m RE_GGA_ALT)) (\<lambda>v.
     obind (doubleToInt v) (\<lambda>alt.
       Ret \<lparr>latitude = lat, longitude = lon, altitude = alt\<rparr>))))"

definition GpsParser_parsePosition ::
  "uint32 \<Rightarrow> int \<Rightarrow> captures \<Rightarrow> gpsPosition \<Rightarrow> unit outcome \<times> gpsPosition" where
  "GpsParser_parsePosition day now m =
     andthen (setting (gga_position m) (\<lambda>x g. g\<lparr>gps_position := x\<rparr>))
    (andthen (setting (TimeStamp_new day now (cap m RE_GGA_TIME) HHMMSS) (\<lambda>x g. g\<lparr>gps_timeStamp := x\<rparr>))
    (andthen (setting (stoi (cap m RE_GGA_FIX) 10) (\<lambda>x g. g\<lparr>gps_fixQuality := sint (word_of_int x :: 8 word)\<rparr>))
    (andthen (setting (stoi (cap m RE_GGA_SAT) 10) (\<lambda>x g. g\<lparr>gps_nrOfSatellites := word_of_int x\<rparr>))
    (andthen (setting (stod (cap m RE_GGA_DIL)) (\<lambda>x g. g\<lparr>gps_dilution := x\<rparr>))
             (setting (stod (cap m RE_GGA_GEOID)) (\<lambda>x g. g\<lparr>gps_geoid := x\<rparr>))))))"

definition GpsParser_unpack ::
  "(regex \<Rightarrow> string \<Rightarrow> captures option) \<Rightarrow> uint32 \<Rightarrow> int \<Rightarrow> string \<Rightarrow> gpsPosition \<Rightarrow>
     bool outcome \<times> gpsPosition" where
  "GpsParser_unpack re day now s g =
     (case ocatch is_logic_error (checksum_ok s) (Ret False) of
        Ret True \<Rightarrow>
          (case re s_GPGGA_RE s of
             None \<Rightarrow> (Ret False, g)
           | Some m \<Rightarrow> let (r, g1) = GpsParser_parsePosition day now m g in (succeeds r, g1))
      | r \<Rightarrow> (r, g))"

section \<open>APRS\<close>

definition s_APRS_RE :: regex where
  "s_APRS_RE =
     seqs [Rep CNonSpace 1 None True, lits ''>APRS,'', Rep CNonSpace 1 None True,
       Opt (seqs [lits '','', Rep CNonSpace 1 None True]), lits '':/'',
       Grp 1 (digits 6), lits ''h'', Grp 2 (seqs [digits 4, lits ''.'', digits 2]),
       Grp 3 (Cls (CSet [(CHR ''N'', CHR ''N''), (CHR ''S'', CHR ''S'')])), Rep CAny 1 None True,
       Grp 4 (seqs [digits 5, lits ''.'', digits 2]),
       Grp 5 (Cls (CSet [(CHR ''E'', CHR ''E''), (CHR ''W'', CHR ''W'')])), Rep CAny 1 None True,
       Opt (seqs [Grp 6 (digits 3), lits ''/'', Grp 7 (digits 3)]), lits ''/A='', Grp 8 (digits 6),
       Rep CSpace 1 None True, Grp 9 (Rep CAny 1 None True)]"

definition sign_cls :: cls where "sign_cls = CSet [(CHR ''+'', CHR ''+''), (CHR ''-'', CHR ''-'')]"

definition hex_cls :: cls where "hex_cls = CSet [(CHR ''0'', CHR ''9''), (CHR ''A'', CHR ''F'')]"

definition s_APRSExtRE :: regex where
  "s_APRSExtRE =
     seqs [Opt (Rep CAny 1 None True), lits ''id'', Grp 1 (Rep hex_cls 2 (Some 2) False),
       Grp 2 (Rep hex_cls 6 (Some 6) False), Opt (Cls CSpace),
       Opt (seqs [Grp 3 (seqs [Cls sign_cls, digits 3]), lits ''fpm'', Rep CSpace 1 None True]),
       Opt (seqs [Grp 4 (seqs [Cls sign_cls, Rep CDigit 1 None True, lits ''.'', Rep CDigit 1 None True]),
                  lits ''rot'']),
       Opt (Rep CAny 1 None True)]"

text \<open>The numbers of the groups of the two expressions.\<close>

abbreviation (input) RE_APRS_TIME :: nat where "RE_APRS_TIME \<equiv> 1"
abbreviation (input) RE_APRS_LAT :: nat where "RE_APRS_LAT \<equiv> 2"
abbreviation (input) RE_APRS_LAT_DIR :: nat where "RE_APRS_LAT_DIR \<equiv> 3"
abbreviation (input) RE_APRS_LON :: nat where "RE_APRS_LON \<equiv> 4"
abbreviation (input) RE_APRS_LON_DIR :: nat where "RE_APRS_LON_DIR \<equiv> 5"
abbreviation (input) RE_APRS_HEAD :: nat where "RE_APRS_HEAD \<equiv> 6"
abbreviation (input) RE_APRS_GND_SPD :: nat where "RE_APRS_GND_SPD \<equiv> 7"
abbreviation (input) RE_APRS_ALT :: nat where "RE_APRS_ALT \<equiv> 8"
abbreviation (input) RE_APRS_COM :: nat where "RE_APRS_COM \<equiv> 9"
abbreviation (input) RE_APRS_COM_TYPE :: nat where "RE_APRS_COM_TYPE \<equiv> 1"
abbreviation (input) RE_APRS_COM_ID :: nat where "RE_APRS_COM_ID \<equiv> 2"
abbreviation (input) RE_APRS_COM_CR :: nat where "RE_APRS_COM_CR \<equiv> 3"
abbreviation (input) RE_APRS_COM_TR :: nat where "RE_APRS_COM_TR \<equiv> 4"

text \<open>\<open>maxHeight\<close> is the static member \<open>s_maxHeight\<close>, set from the configuration.\<close>

definition aprs_position :: "captures \<Rightarrow> position outcome" where
  "aprs_position m =
     obind (parse_angle (cap m RE_APRS_LAT) (cap m RE_APRS_LAT_DIR) ''S'') (\<lambda>lat.
     obind (parse_angle (cap m RE_APRS_LON) (cap m RE_APRS_LON_DIR) ''W'') (\<lambda>lon.
     obind (stod (cap m RE_APRS_ALT)) (\<lambda>v.
     obind (doubleToInt (d_mul v FEET_2_M)) (\<lambda>alt.
       Ret \<lparr>latitude = lat, longitude = lon, altitude = alt\<rparr>))))"

definition AprsParser_parsePosition :: "int \<Rightarrow> captures \<Rightarrow> aircraft \<Rightarrow> bool outcome \<times> aircraft" where
  "AprsParser_parsePosition maxHeight m a =
     (case setting (aprs_position m) (\<lambda>x a. a\<lparr>ac_position := x\<rparr>) a of
        (Ret _, a1) \<Rightarrow> (Ret (altitude (ac_position a1) \<le> maxHeight), a1)
      | (r, a1) \<Rightarrow> (succeeds r, a1))"

definition AprsParser_parseTimeStamp ::
  "uint32 \<Rightarrow> int \<Rightarrow> captures \<Rightarrow> aircraft \<Rightarrow> bool outcome \<times> aircraft" where
  "AprsParser_parseTimeStamp day now m a =
     (let (r, a1) = setting (TimeStamp_new day now (cap m RE_APRS_TIME) HHMMSS) (\<lambda>x a. a\<lparr>ac_timeStamp := x\<rparr>) a
      in (ocatch (\<lambda>e. e = Invalid_argument) (omap (\<lambda>_. True) r) (Ret False), a1))"

definition AprsParser_parseComment :: "captures \<Rightarrow> aircraft \<Rightarrow> bool outcome \<times> aircraft" where
  "AprsParser_parseComment m a =
     (let (r, a1) =
        andthen (setting (stoi (cap m RE_APRS_COM_TYPE) 16) (\<lambda>n. set_idType (word_of_int (n AND 3))))
          (setting (stoi (cap m RE_APRS_COM_TYPE) 16) (\<lambda>n. set_aircraftType (word_of_int (drop_bit 2 (n AND 124)))))
          (a\<lparr>ac_id := cap m RE_APRS_COM_ID\<rparr>)
      in (succeeds r, a1))"

definition aprs_movement :: "captures \<Rightarrow> captures \<Rightarrow> movement outcome" where
  "aprs_movement m c =
     obind (stod (cap m RE_APRS_HEAD)) (\<lambda>hd.
     obind (stod (cap m RE_APRS_GND_SPD)) (\<lambda>spd.
     obind (stod (cap c RE_APRS_COM_CR)) (\<lambda>cr.
       Ret \<lparr>gndSpeed = d_mul spd KTS_2_MS, heading = hd, climbRate = d_mul cr FPM_2_MS\<rparr>)))"

definition AprsParser_parseMovement :: "captures \<Rightarrow> captures \<Rightarrow> aircraft \<Rightarrow> bool outcome \<times> aircraft" where
  "AprsParser_parseMovement m c a =
     (let (r, a1) = setting (aprs_movement m c) (\<lambda>x a. a\<lparr>ac_movement := x\<rparr>) a in (succeeds r, a1))"

text \<open>\<open>f(\<dots>) && rest\<close>, where both change the aircraft.\<close>

definition conj_then ::
  "bool outcome \<times> 's \<Rightarrow> ('s \<Rightarrow> bool outcome \<times> 's) \<Rightarrow> bool outcome \<times> 's" where
  "conj_then r f = (case r of (Ret True, s) \<Rightarrow> f s | _ \<Rightarrow> r)"

definition AprsParser_unpack ::
  "(regex \<Rightarrow> string \<Rightarrow> captures option) \<Rightarrow> int \<Rightarrow> uint32 \<Rightarrow> int \<Rightarrow> string \<Rightarrow> aircraft \<Rightarrow>
     bool outcome \<times> aircraft" where
  "AprsParser_unpack re maxHeight day now s a =
     (if s \<noteq> [] \<and> hd s = CHR ''#'' then (Ret False, a)
      else (case re s_APRS_RE s of
              None \<Rightarrow> (Ret False, a)
            | Some m \<Rightarrow>
                conj_then (AprsParser_parsePosition maxHeight m a) (\<lambda>a1.
                conj_then (AprsParser_parseTimeStamp day now m a1) (\<lambda>a2.
                  (case re s_APRSExtRE (cap m RE_APRS_COM) of
                     None \<Rightarrow> (Ret False, a2)
                   | Some c \<Rightarrow>
                       conj_then (AprsParser_parseComment c a2) (\<lambda>a3.
                         (case AprsParser_parseMovement m c a3 of
                            (Ret b, a4) \<Rightarrow> (Ret True, a4\<lparr>ac_fullInfo := b, ac_targetType := FLARM\<rparr>)
                          | (r, a4) \<Rightarrow> (r, a4))))))))"

section \<open>SBS\<close>

text \<open>The numbers of the fields.\<close>

abbreviation (input) SBS_FIELD_ID :: nat where "SBS_FIELD_ID \<equiv> 4"
abbreviation (input) SBS_FIELD_TIME :: nat where "SBS_FIELD_TIME \<equiv> 7"
abbreviation (input) SBS_FIELD_ALT :: nat where "SBS_FIELD_ALT \<equiv> 11"
abbreviation (input) SBS_FIELD_LAT :: nat where "SBS_FIELD_LAT \<equiv> 14"
abbreviation (input) SBS_FIELD_LON :: nat where "SBS_FIELD_LON \<equiv> 15"

definition sbs_parseField ::
  "uint32 \<Rightarrow> int \<Rightarrow> nat \<Rightarrow> string \<Rightarrow> position \<times> aircraft \<Rightarrow> bool outcome \<times> position \<times> aircraft" where
  "sbs_parseField day now fieldNr field pa =
     (let (r, pa1) =
        (if fieldNr = SBS_FIELD_ID then (Ret (), (fst pa, (snd pa)\<lparr>ac_id := field\<rparr>))
         else if fieldNr = SBS_FIELD_TIME then
           setting (TimeStamp_new day now field HH_MM_SS_FFF) (\<lambda>x (p, a). (p, a\<lparr>ac_timeStamp := x\<rparr>)) pa
         else if fieldNr = SBS_FIELD_ALT then
           setting (obind (stod field) (\<lambda>v. doubleToInt (d_mul v FEET_2_M))) (\<lambda>x (p, a). (p\<lparr>altitude := x\<rparr>, a)) pa
         else if fieldNr = SBS_FIELD_LAT then setting (stod field) (\<lambda>x (p, a). (p\<lparr>latitude := x\<rparr>, a)) pa
         else if fieldNr = SBS_FIELD_LON then setting (stod field) (\<lambda>x (p, a). (p\<lparr>longitude := x\<rparr>, a)) pa
         else (Ret (), pa))
      in (succeeds r, pa1))"

text \<open>
  The loop over the delimiters. It ends with the number of the next field and the position and
  aircraft filled so far, or with the value \<open>unpack\<close> returns.
\<close>

function sbs_loop ::
  "uint32 \<Rightarrow> int \<Rightarrow> string \<Rightarrow> nat \<Rightarrow> nat \<Rightarrow> position \<times> aircraft \<Rightarrow> (nat + bool outcome) \<times> position \<times> aircraft" where
  "sbs_loop day now s p i pa =
     (let delim = str_find s (CHR '','') p in
      if delim \<noteq> npos \<and> i < 16 then
        (case str_substr s p (sz_sub delim p) of
           Ret f \<Rightarrow>
             (case sbs_parseField day now i f pa of
                (Ret True, pa1) \<Rightarrow> sbs_loop day now s (sz_add delim 1) (Suc i) pa1
              | (r, pa1) \<Rightarrow> (Inr r, pa1))
         | Throw e \<Rightarrow> (Inr (Throw e), pa)
         | UB \<Rightarrow> (Inr UB, pa))
      else (Inl i, pa))"
  by pat_completeness auto
termination
  by (relation "measure (\<lambda>(day, now, s, p, i, pa). 16 - i)") auto

declare sbs_loop.simps [simp del]

text \<open>\<open>pos0\<close> is the indeterminate value of the local variable \<open>pos\<close>.\<close>

definition SbsParser_unpack ::
  "position \<Rightarrow> int \<Rightarrow> uint32 \<Rightarrow> int \<Rightarrow> string \<Rightarrow> aircraft \<Rightarrow> bool outcome \<times> aircraft" where
  "SbsParser_unpack pos0 maxHeight day now s a =
     (if str_find s (CHR '','') 6 = npos \<or> \<not> (length s > 4 \<and> s ! 4 = CHR ''3'') then (Ret False, a)
      else (case sbs_loop day now s 6 2 (pos0, a) of
              (Inr r, (_, a1)) \<Rightarrow> (r, a1)
            | (Inl i, (pos, a1)) \<Rightarrow>
                (Ret (i = 16 \<and> altitude pos \<le> maxHeight),
                 set_idType ID_ICAO (set_aircraftType AT_POWERED_AIRCRAFT
                   (a1\<lparr>ac_position := pos, ac_targetType := TRANSPONDER\<rparr>)))))"

end
