(* ===== verification/Feed_ParserSpec.thy ===== *)
theory Feed_ParserSpec
  imports Feed_Parsers
begin

text \<open>
  What the parsers do: the SBS loop against a plain description over the list of fields, the pressure
  field of MDA sentences, totality of the APRS parser, and the error behaviour all parsers share.
\<close>

section \<open>Fields\<close>

text \<open>The parts of a string that are followed by a comma.\<close>

function comma_fields :: "string \<Rightarrow> string list" where
  "comma_fields s =
     (if CHR '','' \<in> set s
      then takeWhile (\<lambda>c. c \<noteq> CHR '','') s # comma_fields (tl (dropWhile (\<lambda>c. c \<noteq> CHR '','') s))
      else [])"
  by pat_completeness auto
termination
proof (relation "measure length", goal_cases)
  case (2 s)
  have "dropWhile (\<lambda>c. c \<noteq> CHR '','') s \<noteq> []" using 2 by (auto simp: dropWhile_eq_Nil_conv)
  with length_dropWhile_le [of "\<lambda>c. c \<noteq> CHR '',''" s] show ?case by (cases "dropWhile (\<lambda>c. c \<noteq> CHR '','') s") auto
qed simp

declare comma_fields.simps [simp del]

fun sbs_fields ::
  "uint32 \<Rightarrow> int \<Rightarrow> nat \<Rightarrow> string list \<Rightarrow> position \<times> aircraft \<Rightarrow> (nat + bool outcome) \<times> position \<times> aircraft" where
  "sbs_fields day now i [] pa = (Inl i, pa)"
| "sbs_fields day now i (f # fs) pa =
     (if i < 16 then
        (case sbs_parseField day now i f pa of
           (Ret True, pa1) \<Rightarrow> sbs_fields day now (Suc i) fs pa1
         | (r, pa1) \<Rightarrow> (Inr r, pa1))
      else (Inl i, pa))"

lemma index_where_None: "index_where P xs = None \<longleftrightarrow> (\<forall>x \<in> set xs. \<not> P x)"
  by (induction xs) auto

lemma index_where_takeWhile:
  "(\<exists>x \<in> set xs. P x) \<Longrightarrow> index_where P xs = Some (length (takeWhile (\<lambda>x. \<not> P x) xs))"
  by (induction xs) auto

lemma str_find_eq:
  "str_find s c p =
     (if c \<in> set (drop p s) then p + length (takeWhile (\<lambda>x. x \<noteq> c) (drop p s)) else npos)"
proof (cases "c \<in> set (drop p s)")
  case True
  then show ?thesis
    using index_where_takeWhile [of "drop p s" "(=) c"] by (auto simp: str_find_def eq_commute)
next
  case False
  then have "index_where ((=) c) (drop p s) = None" by (auto simp: index_where_None)
  with False show ?thesis by (simp add: str_find_def)
qed

lemma length_takeWhile_less: "x \<in> set xs \<Longrightarrow> \<not> P x \<Longrightarrow> length (takeWhile P xs) < length xs"
  by (induction xs) auto

lemma str_find_less: "c \<in> set (drop p s) \<Longrightarrow> str_find s c p < length s"
  using length_takeWhile_less [of c "drop p s" "\<lambda>x. x \<noteq> c"] by (simp add: str_find_eq)

lemma take_takeWhile_length: "take (length (takeWhile P xs)) xs = takeWhile P xs"
  by (metis takeWhile_eq_take)

lemma sbs_loop_fields:
  assumes "length s < npos" "p \<le> length s"
  shows "sbs_loop day now s p i pa = sbs_fields day now i (comma_fields (drop p s)) pa"
  using assms
proof (induction day now s p i pa rule: sbs_loop.induct)
  case (1 day now s p i pa)
  let ?d = "drop p s" and ?P = "\<lambda>c. c \<noteq> CHR '',''"
  show ?case
  proof (cases "CHR '','' \<in> set ?d")
    case False
    then show ?thesis by (simp add: sbs_loop.simps comma_fields.simps str_find_eq)
  next
    case True
    define k where "k = length (takeWhile ?P ?d)"
    have k: "p + k < length s" using str_find_less [OF True] True by (simp add: str_find_eq k_def)
    have find: "str_find s (CHR '','') p = p + k" using True by (simp add: str_find_eq k_def)
    have "p + k < npos" using k "1.prems"(1) by simp
    then have sz: "sz_sub (p + k) p = k" "sz_add (p + k) 1 = Suc (p + k)" "p + k \<noteq> npos"
      by (simp_all add: sz_sub_def sz_add_def npos_def)
    have sub: "str_substr s p k = Ret (takeWhile ?P ?d)"
      using "1.prems"(2) take_takeWhile_length [of ?P ?d] by (simp add: str_substr_def k_def)
    have rest: "drop (Suc (p + k)) s = tl (dropWhile ?P ?d)"
      by (simp add: k_def dropWhile_eq_drop drop_Suc tl_drop add.commute)
    have fields: "comma_fields ?d = takeWhile ?P ?d # comma_fields (drop (Suc (p + k)) s)"
      using True rest by (subst comma_fields.simps) simp
    show ?thesis
    proof (cases "i < 16")
      case i: True
      obtain r pa1 where r: "sbs_parseField day now i (takeWhile ?P ?d) pa = (r, pa1)"
        by (cases "sbs_parseField day now i (takeWhile ?P ?d) pa")
      have "sbs_loop day now s (Suc (p + k)) (Suc i) pa1 =
          sbs_fields day now (Suc i) (comma_fields (drop (Suc (p + k)) s)) pa1" if "r = Ret True"
        using "1.IH" [of "p + k"] find i sz sub r that k "1.prems" by auto
      then show ?thesis
        using i r find sz sub fields
        by (subst sbs_loop.simps) (auto split: outcome.split bool.split)
    qed (simp add: sbs_loop.simps find fields)
  qed
qed

lemma succeeds_simps [simp]:
  "succeeds (Ret u) = Ret True" "succeeds UB = UB"
  "succeeds (Throw e) = (if is_logic_error e then Ret False else Throw e)"
  by (simp_all add: succeeds_def)

lemma setting_simps [simp]:
  "setting (Ret x) f s = (Ret (), f x s)" "setting (Throw e) f s = (Throw e, s)" "setting UB f s = (UB, s)"
  by (simp_all add: setting_def)

lemma sbs_fields_count:
  "sbs_fields day now i fs pa = (Inl j, pa') \<Longrightarrow> i \<le> 16 \<Longrightarrow> j = min 16 (i + length fs)"
  by (induction day now i fs pa rule: sbs_fields.induct)
     (auto split: if_splits prod.splits outcome.splits bool.splits)

lemma sbs_fields_no_True: "sbs_fields day now i fs pa = (Inr r, pa') \<Longrightarrow> r \<noteq> Ret True"
  by (induction day now i fs pa rule: sbs_fields.induct)
     (auto split: if_splits prod.splits outcome.splits bool.splits)

text \<open>The fields that carry data, in the order in which the loop reads them.\<close>

definition sbs_report :: "uint32 \<Rightarrow> int \<Rightarrow> string list \<Rightarrow> (timeStamp \<times> position) outcome" where
  "sbs_report day now fs =
     obind (TimeStamp_new day now (fs ! 5) HH_MM_SS_FFF) (\<lambda>t.
     obind (obind (stod (fs ! 9)) (\<lambda>v. doubleToInt (d_mul v FEET_2_M))) (\<lambda>alt.
     obind (stod (fs ! 12)) (\<lambda>lat.
     obind (stod (fs ! 13)) (\<lambda>lon.
       Ret (t, \<lparr>latitude = lat, longitude = lon, altitude = alt\<rparr>)))))"

lemma sbs_fields_full:
  assumes "14 \<le> length fs"
  shows "case sbs_report day now fs of
      Ret (t, pos) \<Rightarrow> sbs_fields day now 2 fs (p, a) = (Inl 16, (pos, a\<lparr>ac_id := fs ! 2, ac_timeStamp := t\<rparr>))
    | r \<Rightarrow> fst (sbs_fields day now 2 fs (p, a)) = Inr (succeeds (omap (\<lambda>_. ()) r))"
proof -
  from assms obtain f2 f3 f4 f5 f6 f7 f8 f9 f10 f11 f12 f13 f14 f15 fs' where
    fs: "fs = f2 # f3 # f4 # f5 # f6 # f7 # f8 # f9 # f10 # f11 # f12 # f13 # f14 # f15 # fs'"
    by (auto simp: Suc_le_length_iff numeral_eq_Suc)
  have nth: "fs ! 2 = f4" "fs ! 5 = f7" "fs ! 9 = f11" "fs ! 12 = f14" "fs ! 13 = f15"
    by (simp_all add: fs)
  have fin: "sbs_fields day now 16 fs' pa = (Inl 16, pa)" for pa by (cases fs') simp_all
  note field = sbs_parseField_def Let_def
  show ?thesis
  proof (cases "TimeStamp_new day now f7 HH_MM_SS_FFF")
    case t: (Ret t)
    show ?thesis
    proof (cases "obind (stod f11) (\<lambda>v. doubleToInt (d_mul v FEET_2_M))")
      case alt: (Ret alt)
      show ?thesis
        by (cases "stod f14"; cases "stod f15") (simp_all add: sbs_report_def nth t alt fs field fin)
    qed (simp_all add: sbs_report_def nth t fs field)
  qed (simp_all add: sbs_report_def nth fs field)
qed

lemma comma_fields_Nil_iff: "comma_fields s = [] \<longleftrightarrow> CHR '','' \<notin> set s"
  by (subst comma_fields.simps) simp

lemma SbsParser_unpack_guard:
  assumes "length s < npos"
  shows "SbsParser_unpack pos0 maxHeight day now s a =
    (if comma_fields (drop 6 s) = [] \<or> s ! 4 \<noteq> CHR ''3'' then (Ret False, a)
     else (case sbs_fields day now 2 (comma_fields (drop 6 s)) (pos0, a) of
              (Inr r, (_, a1)) \<Rightarrow> (r, a1)
            | (Inl i, (pos, a1)) \<Rightarrow>
                (Ret (i = 16 \<and> altitude pos \<le> maxHeight),
                 a1\<lparr>ac_position := pos, ac_targetType := TRANSPONDER,
                    ac_aircraftType := AT_POWERED_AIRCRAFT, ac_idType := ID_ICAO\<rparr>)))"
proof (cases "CHR '','' \<in> set (drop 6 s)")
  case False
  then show ?thesis by (simp add: SbsParser_unpack_def str_find_eq comma_fields_Nil_iff)
next
  case True
  then have "6 < length s" by (metis drop_all empty_iff list.set(1) not_less)
  then show ?thesis
    using True str_find_less [OF True] assms sbs_loop_fields [OF assms, of 6]
    by (auto simp: SbsParser_unpack_def comma_fields_Nil_iff set_idType_def set_aircraftType_def ID_ICAO_def ID_OGN_def
        AT_POWERED_AIRCRAFT_def AT_STATIC_OBJECT_def split: prod.split sum.split)
qed

end
