(* ===== verification/Feed_ParserTotal.thy ===== *)
theory Feed_ParserTotal
  imports Feed_ParserSpec
begin

text \<open>
  The parsers are declared \<open>noexcept\<close>: an exception that leaves one ends the program, and a number that
  does not fit its type has no defined meaning. This theory shows when neither happens.
\<close>

section \<open>Reading decimal numbers\<close>

lemma stod_no_UB: "stod s \<noteq> UB" "stod_idx s \<noteq> UB"
proof -
  have "mag_to_double neg m \<noteq> UB" for neg m by (cases m) (auto simp: mag_round_def)
  then show "stod_idx s \<noteq> UB" 
    by (auto simp: stod_idx_def omap_def obind_eq_UB_conv Let_def split: option.splits prod.splits)
  then show "stod s \<noteq> UB" by (cases "stod_idx s") (simp_all add: stod_def)
qed

lemma stod_Throw:
  "stod_idx s = Throw e \<Longrightarrow> is_logic_error e" "stod s = Throw e \<Longrightarrow> is_logic_error e"
proof -
  have "mag_to_double neg m = Throw e \<Longrightarrow> is_logic_error e" for neg m e
    by (cases m) (auto simp: mag_round_def split: if_splits)
  then show "stod_idx s = Throw e \<Longrightarrow> is_logic_error e"
    by (auto simp: stod_idx_def omap_def obind_eq_Throw_conv Let_def split: option.splits prod.splits)
  then show "stod s = Throw e \<Longrightarrow> is_logic_error e" by (cases "stod_idx s") (simp_all add: stod_def)
qed

lemma stoi_Throw: "stoi s b = Throw e \<Longrightarrow> is_logic_error e"
  by (auto simp: stoi_def Let_def split: option.splits prod.splits if_splits)

text \<open>An integer part and a fraction, as the expressions of the sentences have them.\<close>

definition decimal :: "string \<Rightarrow> string \<Rightarrow> string" where
  "decimal ip fp = ip @ (if fp = [] then [] else CHR ''.'' # fp)"

lemma starts_with_set: "starts_with s pat \<Longrightarrow> set pat \<subseteq> set s"
  by (induction s pat rule: starts_with.induct) auto

lemma lower_digit: "is_digit 10 c \<Longrightarrow> lower c = c \<and> c \<noteq> CHR ''i'' \<and> c \<noteq> CHR ''n'' \<and> c \<noteq> CHR ''x''"
  by (auto simp: is_digit_def digit_val_def lower_def Let_def split: if_splits)

lemma scan_mant_decimal:
  assumes "list_all (is_digit 10) ip" "list_all (is_digit 10) fp" "ip \<noteq> []"
  shows "scan_mant 10 (decimal ip fp) = Some (ip, fp, [])"
proof -
  have "\<not> is_digit 10 (CHR ''.'')" by (simp add: is_digit_def digit_val_def)
  with assms show ?thesis
    by (auto simp: scan_mant_def decimal_def list_all_iff takeWhile_append dropWhile_append
        takeWhile_eq_all_conv dropWhile_eq_Nil_conv)
qed

lemma stod_decimal:
  assumes "list_all (is_digit 10) ip" "list_all (is_digit 10) fp" "ip \<noteq> []"
  shows "stod (decimal ip fp) = mag_round False (of_nat (num_of 10 (ip @ fp)) * 10 powi (- int (length fp)))"
proof -
  obtain c cs where ip: "ip = c # cs" using assms(3) by (cases ip) auto
  have c: "is_digit 10 c" using assms(1) ip by simp
  then have c16: "is_digit 16 c" by (simp add: is_digit_def)
  have chars: "x = CHR ''.'' \<or> is_digit 10 x" if "x \<in> set (decimal ip fp)" for x
    using that assms(1, 2) by (auto simp: decimal_def list_all_iff split: if_splits)
  have "CHR 0x00 \<notin> set (decimal ip fp)" using chars by (force simp: is_digit_def digit_val_def)
  then have cstr: "c_str (decimal ip fp) = decimal ip fp" by (rule c_str_id)
  have hd: "\<exists>r. decimal ip fp = c # r" by (simp add: decimal_def ip)
  then have sp: "dropWhile is_space (decimal ip fp) = decimal ip fp"
    "take_sign (decimal ip fp) = (False, decimal ip fp)"
    using is_digit_not_special [OF c16] by (auto simp: take_sign_def)
  have special: "scan_special (decimal ip fp) = None"
    using hd lower_digit [OF c] by (auto simp: scan_special_def drop_ci_def)
  have "lower x \<noteq> CHR ''x''" if "x \<in> set (decimal ip fp)" for x
    using chars [OF that] lower_digit [of x] by (auto simp: lower_def)
  then have "\<not> starts_with (map lower (decimal ip fp)) ''0x''"
    using starts_with_set [of "map lower (decimal ip fp)" "''0x''"] by fastforce
  then have hex: "scan_hex (decimal ip fp) = None" by (simp add: scan_hex_def drop_ci_def)
  show ?thesis
    using scan_mant_decimal [OF assms]
    by (simp add: stod_def stod_idx_def cstr sp scan_mag_def special hex scan_dec_def scan_exp_def Let_def omap_def obind_assoc)
qed


lemma num_of_decimal_bound:
  assumes "list_all (is_digit 10) ip" "list_all (is_digit 10) fp"
  defines "r \<equiv> of_nat (num_of 10 (ip @ fp)) * (10 :: real) powi (- int (length fp))"
  shows "0 \<le> r" "r \<le> 10 ^ length ip" "r = 0 \<or> 1 / 10 ^ length fp \<le> r"
proof -
  have "num_of 10 (ip @ fp) < 10 ^ (length ip + length fp)"
    using num_of_less [of "ip @ fp" 10] assms(1, 2) by (auto simp: list_all_iff)
  then have "of_nat (num_of 10 (ip @ fp)) \<le> (10 :: real) ^ (length ip + length fp)"
    by (metis less_imp_le of_nat_le_iff of_nat_numeral of_nat_power)
  moreover have r: "r = of_nat (num_of 10 (ip @ fp)) / 10 ^ length fp"
    by (simp add: r_def power_int_minus divide_inverse)
  ultimately show "r \<le> 10 ^ length ip" by (simp add: power_add pos_divide_le_eq mult.commute)
  show "0 \<le> r" by (simp add: r)
  show "r = 0 \<or> 1 / 10 ^ length fp \<le> r"
  proof (cases "num_of 10 (ip @ fp)")
    case (Suc n)
    then show ?thesis by (simp add: r divide_right_mono)
  qed (simp add: r)
qed

lemma stod_decimal_small:
  assumes "list_all (is_digit 10) ip" "list_all (is_digit 10) fp" "ip \<noteq> []" "length ip \<le> 9" "length fp \<le> 15"
  obtains v where "stod (decimal ip fp) = Ret (Fin False v)" "0 \<le> v" "v \<le> 10 ^ length ip"
proof -
  define r where "r = of_nat (num_of 10 (ip @ fp)) * (10 :: real) powi (- int (length fp))"
  note b = num_of_decimal_bound [OF assms(1, 2), folded r_def]
  have "(10 :: real) ^ length ip \<le> 10 ^ 9" using assms(4) by (intro power_increasing) simp_all
  then have hi: "r \<le> 9007199254740992" using b(2) by simp
  have "(10 :: real) ^ length fp \<le> 10 ^ 15" using assms(5) by (intro power_increasing) simp_all
  then have "1 / 1152921504606846976 \<le> 1 / (10 :: real) ^ length fp" by (simp add: field_simps)
  then have "r = 0 \<or> 1 / 1152921504606846976 \<le> r" using b(3) order_trans by blast
  then have "stod (decimal ip fp) = Ret (Fin False (fl64 r))"
    using stod_decimal [OF assms(1-3), folded r_def] hi mag_round_mid [of r False] mag_round_0 [of False]
    by auto
  moreover have "0 \<le> fl64 r" using b(1) by (rule fl64_nonneg)
  moreover have "(10 :: nat) ^ length ip \<le> 10 ^ 9" using assms(4) by (intro power_increasing) simp_all
  then have "fl64 r \<le> 10 ^ length ip" using fl64_le_int [OF b(1), of "10 ^ length ip"] b(2) by simp
  ultimately show ?thesis by (rule that)
qed

section \<open>Rounding to integers\<close>

lemma dlit_0 [simp]: "dlit 0 = Fin False 0"
  by (simp add: dlit_def fin_round_small)

lemma dlit_half [simp]: "dlit (1 / 2) = Fin False (1 / 2)"
  using fl64_exact [of 1 "- 1"] by (simp add: dlit_def fin_round_small power_int_minus)

text \<open>Rounding the sum with one half keeps it between the neighbouring integers.\<close>

lemma floor_fl64_half:
  assumes "0 \<le> v" "v \<le> 1000000000"
  shows "\<bar>of_int \<lfloor>fl64 (v + 1 / 2)\<rfloor> - v\<bar> \<le> 3 / 2"
proof -
  define n where "n = nat \<lfloor>v + 1 / 2\<rfloor>"
  have n: "of_nat n \<le> v + 1 / 2" "v + 1 / 2 \<le> of_nat (Suc n)" "n \<le> 1000000001"
    using assms by (simp_all add: n_def) linarith+
  have "of_nat n \<le> fl64 (v + 1 / 2)" using n by (intro fl64_ge_int) simp_all
  moreover have "fl64 (v + 1 / 2) \<le> of_nat (Suc n)" using n assms by (intro fl64_le_int) simp_all
  ultimately show ?thesis using n assms by linarith
qed

lemma doubleToInt_small:
  assumes "0 \<le> v" "v \<le> 1000000000"
  obtains i where "doubleToInt (Fin s v) = Ret i" "\<bar>of_int i - sgnd s v\<bar> \<le> 3 / 2"
proof -
  let ?w = "fl64 (v + 1 / 2)"
  note close = floor_fl64_half [OF assms]
  then have "in_i32 \<lfloor>?w\<rfloor>" "in_i32 (- \<lfloor>?w\<rfloor>)" using assms unfolding in_i32_iff by linarith+
  then have "doubleToInt (Fin s v) = Ret (if s \<and> v \<noteq> 0 then - \<lfloor>?w\<rfloor> else \<lfloor>?w\<rfloor>)"
    using assms
    by (auto simp: doubleToInt_def d_le_def sgnd_def d_sub_def fin_round_small i32_def add.commute)
  then show ?thesis using close by (intro that) (auto simp: sgnd_def abs_minus_commute)
qed

section \<open>Captures\<close>

text \<open>The groups of an expression.\<close>

fun groups :: "regex \<Rightarrow> (nat \<times> regex) list" where
  "groups (Seq a b) = groups a @ groups b"
| "groups (Opt a) = groups a"
| "groups (Grp i a) = (i, a) # groups a"
| "groups _ = []"

lemma captured_by_group:
  "re_in e s m \<Longrightarrow> (i, t) \<in> set m \<Longrightarrow> \<exists>r m'. (i, r) \<in> set (groups e) \<and> re_in r t m'"
proof (induction e arbitrary: s m)
  case (Seq a b)
  then show ?case by fastforce
next
  case (Grp j a)
  then obtain m1 where m1: "re_in a s m1" "m = (j, s) # m1" by auto
  then show ?case using Grp.IH [of s m1] Grp.prems(2) by auto
qed auto

lemma cap_cases:
  assumes "re_in e s m"
  shows "cap m i = [] \<or> (\<exists>r m'. (i, r) \<in> set (groups e) \<and> re_in r (cap m i) m')"
proof (cases "map_of m i")
  case (Some t)
  then show ?thesis using captured_by_group [OF assms, of i t] map_of_SomeD [OF Some] by (simp add: cap_def)
qed (simp add: cap_def)

lemma in_range_digit [simp]: "in_range c (CHR ''0'', CHR ''9'') \<longleftrightarrow> is_digit 10 c"
  by (auto simp: in_range_def is_digit_def digit_val_def Let_def)

lemma re_in_digits: "re_in (digits n) s m \<Longrightarrow> list_all (is_digit 10) s \<and> length s = n"
  by (auto simp: digits_def list_all_iff)

lemma in_range_single [simp]: "in_range c (d, d) \<longleftrightarrow> c = d"
  by (simp add: in_range_def order_eq_iff [symmetric] eq_commute)

lemma re_in_point: "re_in (lits ''.'') s m \<longleftrightarrow> s = ''.'' \<and> m = []"
proof -
  have point: "c = CHR ''.'' \<longleftrightarrow> of_char c = (46 :: nat)" for c
    using of_char_eq_iff [where ?'a = nat, of c "CHR ''.''"] by simp
  have "lower x = CHR ''.'' \<longleftrightarrow> x = CHR ''.''" "upper x = CHR ''.'' \<longleftrightarrow> x = CHR ''.''" for x
    unfolding point by (auto simp: lower_def upper_def Let_def)
  then show ?thesis by (auto simp: lits_def)
qed

lemma re_in_number:
  assumes "re_in number_re s m"
  obtains ip fp where "s = decimal ip fp" "ip \<noteq> []" "list_all (is_digit 10) ip" "list_all (is_digit 10) fp"
proof -
  have "(\<exists>ip fp. s = ip @ CHR ''.'' # fp \<and> ip \<noteq> [] \<and> fp \<noteq> [] \<and> list_all (is_digit 10) ip \<and>
      list_all (is_digit 10) fp) \<or> s \<noteq> [] \<and> list_all (is_digit 10) s"
    using assms by (fastforce simp: number_re_def digits_plus_def list_all_iff re_in_point)
  then show ?thesis
    using that [of s "[]"] by (auto simp: decimal_def intro: that split: if_splits)
qed

section \<open>Totality\<close>

lemma TimeStamp_new_not_UB: "TimeStamp_new day now v f \<noteq> UB"
  and TimeStamp_new_Throw: "TimeStamp_new day now v f = Throw e \<Longrightarrow> e = Invalid_argument"
  using TimeStamp_new_total [of day now v f] by auto

lemma FEET_2_M_bound:
  obtains r where "FEET_2_M = Fin False r" "0 \<le> r" "r \<le> 1"
proof
  show "FEET_2_M = Fin False (fl64 (3048 / 10000))"
    by (simp add: FEET_2_M_def dlit_def fin_round_small)
  show "0 \<le> fl64 (3048 / 10000)" by (simp add: fl64_nonneg)
  show "fl64 (3048 / 10000) \<le> 1" using fl64_le_int [of "3048 / 10000" 1] by simp
qed

lemma parse_angle_defined:
  "parse_angle dm dir neg \<noteq> UB" "parse_angle dm dir neg = Throw e \<Longrightarrow> is_logic_error e"
  using stod_no_UB(1) [of dm] stod_Throw(2) [of dm e] by (cases "stod dm"; simp add: parse_angle_def)+

lemma six_digits_altitude:
  assumes "list_all (is_digit 10) s" "length s = 6"
  shows "\<exists>i. obind (stod s) (\<lambda>v. doubleToInt (d_mul v FEET_2_M)) = Ret i"
proof -
  obtain v where v: "stod s = Ret (Fin False v)" "0 \<le> v" "v \<le> 10 ^ 6"
    by (rule stod_decimal_small [of s "[]"]) (use assms in \<open>auto simp: decimal_def\<close>)
  obtain r where r: "FEET_2_M = Fin False r" "0 \<le> r" "r \<le> 1" by (rule FEET_2_M_bound)
  have "v * r \<le> 10 ^ 6 * 1" using v r by (intro mult_mono) simp_all
  then have b: "0 \<le> v * r" "v * r \<le> 1000000" using v r by simp_all
  then have "d_mul (Fin False v) FEET_2_M = Fin False (fl64 (v * r))"
    by (simp add: r sgnd_def fin_round_small)
  moreover have "0 \<le> fl64 (v * r)" "fl64 (v * r) \<le> 1000000000"
    using b fl64_le_int [of "v * r" 1000000] fl64_nonneg [of "v * r"] by simp_all
  then obtain i where "doubleToInt (Fin False (fl64 (v * r))) = Ret i" using doubleToInt_small by blast
  ultimately show ?thesis using v by simp
qed

lemma aprs_altitude:
  assumes "re_in s_APRS_RE s m"
  shows "cap m 8 = [] \<or> list_all (is_digit 10) (cap m 8) \<and> length (cap m 8) = 6"
proof -
  have "r = digits 6" if "(8, r) \<in> set (groups s_APRS_RE)" for r
    using that by (auto simp: s_APRS_RE_def lits_def digits_def)
  then show ?thesis using cap_cases [OF assms, of 8] re_in_digits by blast
qed

lemma aprs_position_defined:
  assumes "re_in s_APRS_RE s m"
  shows "aprs_position m \<noteq> UB" "aprs_position m = Throw e \<Longrightarrow> is_logic_error e"
proof -
  let ?alt = "obind (stod (cap m 8)) (\<lambda>v. doubleToInt (d_mul v FEET_2_M))"
  have eq: "aprs_position m =
     obind (parse_angle (cap m 2) (cap m 3) ''S'') (\<lambda>lat.
     obind (parse_angle (cap m 4) (cap m 5) ''W'') (\<lambda>lon.
     obind ?alt (\<lambda>alt. Ret \<lparr>latitude = lat, longitude = lon, altitude = alt\<rparr>)))"
    by (simp add: aprs_position_def obind_assoc)
  have "stod [] = Throw Invalid_argument" by code_simp
  then have alt: "?alt = Throw Invalid_argument \<or> (\<exists>i. ?alt = Ret i)"
    using aprs_altitude [OF assms] six_digits_altitude by auto
  then show "aprs_position m \<noteq> UB"
    unfolding eq using parse_angle_defined(1) by (auto simp: obind_eq_UB_conv)
  show "aprs_position m = Throw e \<Longrightarrow> is_logic_error e"
    unfolding eq using alt parse_angle_defined(2) by (auto simp: obind_eq_Throw_conv)
qed

lemma aprs_movement_defined:
  "aprs_movement m c \<noteq> UB" "aprs_movement m c = Throw e \<Longrightarrow> is_logic_error e"
  using stod_no_UB stod_Throw by (auto simp: aprs_movement_def obind_eq_UB_conv obind_eq_Throw_conv)

lemma AprsParser_steps_defined:
  "re_in s_APRS_RE s m \<Longrightarrow> \<exists>b. fst (AprsParser_parsePosition h m a) = Ret b"
  "\<exists>b. fst (AprsParser_parseTimeStamp day now m a) = Ret b"
  "\<exists>b. fst (AprsParser_parseComment m a) = Ret b"
  "\<exists>b. fst (AprsParser_parseMovement m c a) = Ret b"
proof -
  show "re_in s_APRS_RE s m \<Longrightarrow> \<exists>b. fst (AprsParser_parsePosition h m a) = Ret b"
    using aprs_position_defined
    by (cases "aprs_position m") (auto simp: AprsParser_parsePosition_def)
  show "\<exists>b. fst (AprsParser_parseTimeStamp day now m a) = Ret b"
    using TimeStamp_new_not_UB TimeStamp_new_Throw
    by (cases "TimeStamp_new day now (cap m 1) HHMMSS") (auto simp: AprsParser_parseTimeStamp_def)
  show "\<exists>b. fst (AprsParser_parseComment m a) = Ret b"
    using stoi_no_UB stoi_Throw
    by (cases "stoi (cap m 1) 16") (auto simp: AprsParser_parseComment_def andthen_def)
  show "\<exists>b. fst (AprsParser_parseMovement m c a) = Ret b"
    using aprs_movement_defined
    by (cases "aprs_movement m c") (auto simp: AprsParser_parseMovement_def)
qed


lemma checksum_ok_defined:
  "checksum_ok s \<noteq> UB" "checksum_ok s = Throw e \<Longrightarrow> is_logic_error e"
  using stoi_no_UB stoi_Throw
  by (auto simp: checksum_ok_def str_substr_def obind_eq_UB_conv obind_eq_Throw_conv split: if_splits)

lemma checksum_guard_defined: "\<exists>b. ocatch is_logic_error (checksum_ok s) (Ret False) = Ret b"
  using checksum_ok_defined [of s] by (cases "checksum_ok s") auto

lemma mda_pressure_defined:
  "mda_pressure s \<noteq> UB" "mda_pressure s = Throw e \<Longrightarrow> is_logic_error e"
  using stod_no_UB(2) stod_Throw(1)
  by (auto simp: mda_pressure_def str_substr_def Let_def obind_eq_UB_conv obind_eq_Throw_conv split: if_splits)

lemma gga_altitude:
  assumes "re_in s_GPGGA_RE s m" "length (cap m 9) \<le> 9"
  shows "cap m 9 = [] \<or> (\<exists>i. obind (stod (cap m 9)) doubleToInt = Ret i)"
proof (cases "cap m 9 = []")
  case False
  have "r = number_re" if "(9, r) \<in> set (groups s_GPGGA_RE)" for r
    using that by (auto simp: s_GPGGA_RE_def number_re_def lits_def digits_def digits_plus_def)
  then obtain m' where "re_in number_re (cap m 9) m'" using cap_cases [OF assms(1), of 9] False by blast
  then obtain ip fp where n: "cap m 9 = decimal ip fp" "ip \<noteq> []" "list_all (is_digit 10) ip" "list_all (is_digit 10) fp"
    by (rule re_in_number)
  then have len: "length ip \<le> 9" "length fp \<le> 15" using assms(2) by (auto simp: decimal_def split: if_splits)
  then obtain v where v: "stod (cap m 9) = Ret (Fin False v)" "0 \<le> v" "v \<le> 10 ^ length ip"
    using stod_decimal_small [OF n(3, 4, 2)] n(1) by auto
  have "(10 :: real) ^ length ip \<le> 10 ^ 9" using len by (intro power_increasing) simp_all
  then obtain i where "doubleToInt (Fin False v) = Ret i" using doubleToInt_small [of v False] v by auto
  then show ?thesis using v by simp
qed simp

lemma gga_position_defined:
  assumes "re_in s_GPGGA_RE s m" "length (cap m 9) \<le> 9"
  shows "gga_position m \<noteq> UB" "gga_position m = Throw e \<Longrightarrow> is_logic_error e"
proof -
  have eq: "gga_position m =
     obind (parse_angle (cap m 2) (cap m 3) ''S'') (\<lambda>lat.
     obind (parse_angle (cap m 4) (cap m 5) ''W'') (\<lambda>lon.
     obind (obind (stod (cap m 9)) doubleToInt)
       (\<lambda>alt. Ret \<lparr>latitude = lat, longitude = lon, altitude = alt\<rparr>)))"
    by (simp add: gga_position_def obind_assoc)
  have "stod [] = Throw Invalid_argument" by code_simp
  then have alt: "obind (stod (cap m 9)) doubleToInt = Throw Invalid_argument \<or>
      (\<exists>i. obind (stod (cap m 9)) doubleToInt = Ret i)"
    using gga_altitude [OF assms] by auto
  then show "gga_position m \<noteq> UB"
    unfolding eq using parse_angle_defined(1) by (auto simp: obind_eq_UB_conv)
  show "gga_position m = Throw e \<Longrightarrow> is_logic_error e"
    unfolding eq using alt parse_angle_defined(2) by (auto simp: obind_eq_Throw_conv)
qed

text \<open>A sequence of settings returns, throws or has no meaning like the first that does not return.\<close>

definition benign :: "'a outcome \<Rightarrow> bool" where
  "benign r \<longleftrightarrow> r \<noteq> UB \<and> (\<forall>e. r = Throw e \<longrightarrow> is_logic_error e)"

lemma benign_setting: "benign r \<Longrightarrow> benign (fst (setting r f s))"
  by (cases r) (auto simp: benign_def)

lemma benign_andthen:
  "(\<And>s. benign (fst (a s))) \<Longrightarrow> (\<And>s. benign (fst (b s))) \<Longrightarrow> benign (fst (andthen a b s))"
  by (auto simp: andthen_def split: prod.split outcome.split) (metis benign_def fst_conv outcome.distinct(5))+

lemma benign_succeeds: "benign r \<Longrightarrow> \<exists>b. succeeds r = Ret b"
  by (cases r) (auto simp: benign_def)

lemma benign_ocatch: "benign r \<Longrightarrow> \<exists>x. ocatch is_logic_error r (Ret d) = Ret x"
  by (cases r) (auto simp: benign_def)

lemma benign_basic:
  "benign (stod s)" "benign (stoi s n)" "benign (TimeStamp_new day now v f)"
proof -
  show "benign (stod s)" using stod_no_UB stod_Throw by (auto simp: benign_def)
  show "benign (stoi s n)" using stoi_no_UB stoi_Throw by (auto simp: benign_def)
  show "benign (TimeStamp_new day now v f)"
    using TimeStamp_new_total [of day now v f] by (auto simp: benign_def)
qed

section \<open>Properties\<close>

text \<open>
  The APRS parser is total: whatever the sentence, with an engine that matches the language of
  its two expressions, it returns true or false; no exception escapes and no conversion overflows.
\<close>

lemma AprsParser_unpack_total:
  assumes "regex_engine re"
  shows "\<exists>b. fst (AprsParser_unpack re maxHeight day now s a) = Ret b"
proof (cases "re s_APRS_RE s")
  case (Some m)
  then have m: "re_in s_APRS_RE s m" using regex_engine.sound [OF assms] by blast
  have then_defined: "\<exists>b. fst (conj_then r f) = Ret b"
    if "\<exists>b. fst r = Ret b" "\<And>a. \<exists>b. fst (f a) = Ret b" for r :: "bool outcome \<times> aircraft" and f
    using that by (cases r) (auto simp: conj_then_def split: bool.split)
  have move: "\<exists>b. fst (case AprsParser_parseMovement m c a3 of
      (Ret b, a4) \<Rightarrow> (Ret True, a4\<lparr>ac_fullInfo := b, ac_targetType := FLARM\<rparr>) | (r, a4) \<Rightarrow> (r, a4)) = Ret b"
    for c a3
    using AprsParser_steps_defined(4) [of m c a3] by (auto split: prod.split)
  show ?thesis
    unfolding AprsParser_unpack_def
    by (auto simp: Some split: option.split intro!: then_defined AprsParser_steps_defined m move)
qed (auto simp: AprsParser_unpack_def ex_bool_eq)

text \<open>
  The GPS parser returns true or false for every sentence whose altitude field has at most nine
  characters; no exception escapes and no conversion overflows.
\<close>

lemma GpsParser_unpack_defined:
  assumes "regex_engine re" "\<forall>m. re s_GPGGA_RE s = Some m \<longrightarrow> length (cap m 9) \<le> 9"
  shows "\<exists>b. fst (GpsParser_unpack re day now s g) = Ret b"
proof -
  obtain b where b: "ocatch is_logic_error (checksum_ok s) (Ret False) = Ret b"
    using checksum_guard_defined by blast
  show ?thesis
  proof (cases "re s_GPGGA_RE s")
    case (Some m)
    then have "re_in s_GPGGA_RE s m" "length (cap m 9) \<le> 9"
      using regex_engine.sound [OF assms(1)] assms(2) by blast+
    then have "benign (gga_position m)" using gga_position_defined by (auto simp: benign_def)
    then have "benign (fst (GpsParser_parsePosition day now m g))" for g
      unfolding GpsParser_parsePosition_def
      by (intro benign_andthen benign_setting benign_basic)
    then show ?thesis
      using b Some benign_succeeds by (cases b) (auto simp: GpsParser_unpack_def split: prod.split, metis fst_conv)
  qed (use b in \<open>cases b; simp add: GpsParser_unpack_def ex_bool_eq\<close>)
qed

text \<open>
  The wind and atmosphere parsers return true or false for every sentence, and leave the object alone
  when they return false.
\<close>

lemma sensor_parsers_defined:
  "(\<exists>b w'. WindParser_unpack s w = (Ret b, w') \<and> (b \<or> w' = w)) \<and>
   (\<exists>b a'. AtmosphereParser_unpack s a = (Ret b, a') \<and> (b \<or> a' = a))"
proof -
  obtain b where b: "ocatch is_logic_error (checksum_ok s) (Ret False) = Ret b"
    using checksum_guard_defined by blast
  have "\<exists>b w'. WindParser_unpack s w = (Ret b, w') \<and> (b \<or> w' = w)"
    by (cases b) (simp_all add: WindParser_unpack_def b ex_bool_eq)
  moreover have "benign (obind (checksum_ok s) (\<lambda>ok. if ok \<and> str_contains s ''MDA'' then mda_pressure s else Ret None))"
    using checksum_ok_defined [of s] mda_pressure_defined [of s]
    by (auto simp: benign_def obind_eq_UB_conv obind_eq_Throw_conv split: if_splits)
  then have "\<exists>b a'. AtmosphereParser_unpack s a = (Ret b, a') \<and> (b \<or> a' = a)"
    using benign_ocatch [of _ None] by (fastforce simp: AtmosphereParser_unpack_def ex_bool_eq split: option.split)
  ultimately show ?thesis ..
qed

lemma sbs_accepts:
  assumes "length s < npos"
  defines "fs \<equiv> comma_fields (drop 6 s)"
  shows "SbsParser_unpack pos0 maxHeight day now s a = (Ret True, a') \<longleftrightarrow>
    s ! 4 = CHR ''3'' \<and> 14 \<le> length fs \<and>
    (\<exists>t pos. sbs_report day now fs = Ret (t, pos) \<and> altitude pos \<le> maxHeight \<and>
       a' = a\<lparr>ac_id := fs ! 2, ac_idType := ID_ICAO, ac_aircraftType := AT_POWERED_AIRCRAFT,
             ac_targetType := TRANSPONDER, ac_position := pos, ac_timeStamp := t\<rparr>)"
proof (cases "14 \<le> length fs")
  case False
  obtain r p a1 where r: "sbs_fields day now 2 fs (pos0, a) = (r, (p, a1))" by (metis prod.collapse)
  have "fst (SbsParser_unpack pos0 maxHeight day now s a) \<noteq> Ret True"
  proof (cases r)
    case (Inl j)
    then have "j \<noteq> 16" using sbs_fields_count [of day now 2 fs "(pos0, a)" j] r False by simp
    with Inl r show ?thesis by (simp add: SbsParser_unpack_guard [OF assms(1)] flip: fs_def)
  next
    case (Inr q)
    with r sbs_fields_no_True [of day now 2 fs "(pos0, a)" q] show ?thesis
      by (simp add: SbsParser_unpack_guard [OF assms(1)] flip: fs_def)
  qed
  with False show ?thesis by auto
next
  case True
  then have ne: "fs \<noteq> []" by auto
  note full = sbs_fields_full [OF True, of day now pos0 a]
  show ?thesis
  proof (cases "sbs_report day now fs")
    case (Ret r)
    with full ne True show ?thesis
      by (cases r) (auto simp: SbsParser_unpack_guard [OF assms(1)] simp flip: fs_def)
  next
    case (Throw e)
    with full ne show ?thesis
      by (cases "sbs_fields day now 2 fs (pos0, a)")
         (auto simp: SbsParser_unpack_guard [OF assms(1)] simp flip: fs_def split: if_splits)
  next
    case UB
    with full ne show ?thesis
      by (cases "sbs_fields day now 2 fs (pos0, a)")
         (auto simp: SbsParser_unpack_guard [OF assms(1)] simp flip: fs_def)
  qed
qed

text \<open>
  C30: the SBS parser accepts a sentence exactly if it is of transmission type 3, has at least fourteen
  comma-terminated fields behind the sixth character, the fields of time, altitude, latitude and
  longitude are readable, and the altitude is within the limit; the aircraft then has the id, stamp and
  position of these fields and is a powered ICAO transponder target, whatever the uninitialised local
  position held.
\<close>

theorem SbsParser_unpack_accepts:
  assumes "length s < npos"
  defines "fs \<equiv> comma_fields (drop 6 s)"
  shows "SbsParser_unpack pos0 maxHeight day now s a = (Ret True, a') \<longleftrightarrow>
    s ! 4 = CHR ''3'' \<and> 14 \<le> length fs \<and>
    (\<exists>t pos. sbs_report day now fs = Ret (t, pos) \<and> altitude pos \<le> maxHeight \<and>
       a' = a\<lparr>ac_id := fs ! 2, ac_idType := ID_ICAO, ac_aircraftType := AT_POWERED_AIRCRAFT,
             ac_targetType := TRANSPONDER, ac_position := pos, ac_timeStamp := t\<rparr>)"
  unfolding fs_def by (rule sbs_accepts [OF assms(1)])

definition sample_sbs :: string where
  "sample_sbs = ''MSG,3,0,0,AAAAAA,0,D,20:11:30.772,D,T,,0,,,49,8,,,,,,0''"

lemma sample_sbs_report:
  "sbs_report 58000 80000000 (comma_fields (drop 6 sample_sbs)) =
     Ret (TimeStamp 72690772 58000, \<lparr>latitude = Fin False 49, longitude = Fin False 8, altitude = 0\<rparr>)"
proof -
  have fields: "comma_fields (drop 6 sample_sbs) =
      [''0'', ''0'', ''AAAAAA'', ''0'', ''D'', ''20:11:30.772'', ''D'', ''T'', [], ''0'', [], [], ''49'', ''8'', [], [], [], [], []]"
    by code_simp
  have num: "stod ''0'' = Ret (Fin False 0)" "stod ''49'' = Ret (Fin False 49)" "stod ''8'' = Ret (Fin False 8)"
    by code_simp+
  have stamp: "TimeStamp_new 58000 80000000 ''20:11:30.772'' HH_MM_SS_FFF = Ret (TimeStamp 72690772 58000)"
    by code_simp
  obtain r where feet: "FEET_2_M = Fin False r" by (rule FEET_2_M_bound)
  have mul: "d_mul (Fin False 0) FEET_2_M = Fin False 0"
    unfolding feet by (simp add: sgnd_def fin_round_small)
  have half: "fl64 (1 / 2) = 1 / 2" using fl64_exact [of 1 "- 1"] by (simp add: power_int_minus)
  have "doubleToInt (Fin False 0) = Ret 0"
    by (simp add: doubleToInt_def d_le_def sgnd_def fin_round_small half in_i32_iff)
  then have "doubleToInt (d_mul (Fin False 0) FEET_2_M) = Ret 0" by (simp add: mul)
  then show ?thesis by (simp add: sbs_report_def fields num stamp)
qed

theorem SbsParser_unpack_accepts_witness:
  "SbsParser_unpack Position_zero 10000 58000 80000000 sample_sbs (Aircraft_new 1) =
     (Ret True, (Aircraft_new 1)\<lparr>ac_id := ''AAAAAA'', ac_idType := ID_ICAO,
        ac_aircraftType := AT_POWERED_AIRCRAFT, ac_targetType := TRANSPONDER,
        ac_position := \<lparr>latitude = Fin False 49, longitude = Fin False 8, altitude = 0\<rparr>,
        ac_timeStamp := TimeStamp 72690772 58000\<rparr>)"
proof -
  have "length sample_sbs < npos" by (simp add: sample_sbs_def npos_def)
  moreover have "sample_sbs ! 4 = CHR ''3''" "14 \<le> length (comma_fields (drop 6 sample_sbs))"
    "comma_fields (drop 6 sample_sbs) ! 2 = ''AAAAAA''" by code_simp+
  ultimately show ?thesis using SbsParser_unpack_accepts [of sample_sbs] sample_sbs_report by simp
qed

end
