(* ===== verification/Feeds.thy ===== *)
theory Feeds
  imports Config Client Data_Stores Feed_ParserTotal
begin

text \<open>
  \<open>include/feed\<close> and \<open>src/feed\<close>: a feed belongs to a section of the configuration, parses the lines its client
  receives, and hands what it gets to a store.
\<close>

section \<open>Feeds\<close>

datatype protocol = APRS | SBS | GPS | SENSOR

text \<open>The derived classes.\<close>

datatype feed_class = AprscFeed | SbsFeed | GpsFeed | WindFeed | AtmosphereFeed

text \<open>\<open>m_priority\<close> has no initial value: \<open>None\<close> is the indeterminate value.\<close>

record 'p feed =
  f_class :: feed_class
  f_name :: string
  f_properties :: 'p
  f_priority :: "uint32 option"

definition initPriority :: "'p ptree_lib \<Rightarrow> 'p \<Rightarrow> uint32 option" where
  "initPriority L properties =
     (case stoul (get_property L properties KV_KEY_PRIORITY []) of
        Ret n \<Rightarrow> Some (of_nat (max 0 (min n (2 ^ 32 - 1))))
      | _ \<Rightarrow> None)"

definition Feed_new :: "'p ptree_lib \<Rightarrow> feed_class \<Rightarrow> string \<Rightarrow> 'p \<Rightarrow> 'p feed outcome" where
  "Feed_new L k name properties =
     (if get_property L properties KV_KEY_HOST [] = [] then Throw Logic_error
      else if get_property L properties KV_KEY_PORT [] = [] then Throw Logic_error
      else Ret \<lparr>f_class = k, f_name = name, f_properties = properties, f_priority = initPriority L properties\<rparr>)"

definition get_endpoint :: "'p ptree_lib \<Rightarrow> 'p feed \<Rightarrow> endpoint" where
  "get_endpoint L f =
     \<lparr>host = get_property L (f_properties f) KV_KEY_HOST [], port = get_property L (f_properties f) KV_KEY_PORT []\<rparr>"

fun class_protocol :: "feed_class \<Rightarrow> protocol" where
  "class_protocol AprscFeed = APRS"
| "class_protocol SbsFeed = SBS"
| "class_protocol GpsFeed = GPS"
| "class_protocol WindFeed = SENSOR"
| "class_protocol AtmosphereFeed = SENSOR"

definition get_protocol :: "'p feed \<Rightarrow> protocol" where
  "get_protocol f = class_protocol (f_class f)"

definition get_login :: "'p ptree_lib \<Rightarrow> 'p feed \<Rightarrow> string" where
  "get_login L f = get_property L (f_properties f) KV_KEY_LOGIN []"

section \<open>The feed factory\<close>

text \<open>The static members of the two aircraft parsers, which the constructors of the feeds set.\<close>

record parser_statics =
  aprs_maxHeight :: int
  sbs_maxHeight :: int

definition parser_statics_init :: parser_statics where
  "parser_statics_init = \<lparr>aprs_maxHeight = 2 ^ 31 - 1, sbs_maxHeight = 2 ^ 31 - 1\<rparr>"

definition AprscFeed_new ::
  "'p ptree_lib \<Rightarrow> string \<Rightarrow> 'p \<Rightarrow> int \<Rightarrow> parser_statics \<Rightarrow> 'p feed outcome \<times> parser_statics" where
  "AprscFeed_new L name properties maxHeight st =
     (case Feed_new L AprscFeed name properties of
        Ret f \<Rightarrow>
          (if get_property L properties KV_KEY_LOGIN ''-'' = ''-'' then Throw Logic_error else Ret f,
           st\<lparr>aprs_maxHeight := maxHeight\<rparr>)
      | r \<Rightarrow> (r, st))"

definition SbsFeed_new ::
  "'p ptree_lib \<Rightarrow> string \<Rightarrow> 'p \<Rightarrow> int \<Rightarrow> parser_statics \<Rightarrow> 'p feed outcome \<times> parser_statics" where
  "SbsFeed_new L name properties maxHeight st =
     (case Feed_new L SbsFeed name properties of
        Ret f \<Rightarrow> (Ret f, st\<lparr>sbs_maxHeight := maxHeight\<rparr>)
      | r \<Rightarrow> (r, st))"

text \<open>\<open>m_config->get_feedProperties().at(name)\<close> throws if the name is unknown.\<close>

definition properties_at :: "'p configuration \<Rightarrow> string \<Rightarrow> 'p outcome" where
  "properties_at cfg name = (case cfg_feedProperties cfg name of Some p \<Rightarrow> Ret p | None \<Rightarrow> Throw Out_of_range)"

definition makeFeed ::
  "'p ptree_lib \<Rightarrow> 'p configuration \<Rightarrow> feed_class \<Rightarrow> string \<Rightarrow> parser_statics \<Rightarrow> 'p feed outcome \<times> parser_statics" where
  "makeFeed L cfg k name st =
     (case properties_at cfg name of
        Ret p \<Rightarrow>
          (case k of
             AprscFeed \<Rightarrow> AprscFeed_new L name p (cfg_maxHeight cfg) st
           | SbsFeed \<Rightarrow> SbsFeed_new L name p (cfg_maxHeight cfg) st
           | _ \<Rightarrow> (Feed_new L k name p, st))
      | Throw e \<Rightarrow> (Throw e, st)
      | UB \<Rightarrow> (UB, st))"

text \<open>The first keyword in the name decides on the class.\<close>

definition feed_kind :: "string \<Rightarrow> feed_class option" where
  "feed_kind name =
     (if str_contains name SECT_KEY_APRSC then Some AprscFeed
      else if str_contains name SECT_KEY_SBS then Some SbsFeed
      else if str_contains name SECT_KEY_GPS then Some GpsFeed
      else if str_contains name SECT_KEY_WIND then Some WindFeed
      else if str_contains name SECT_KEY_ATMOS then Some AtmosphereFeed
      else None)"

definition createFeed ::
  "'p ptree_lib \<Rightarrow> 'p configuration \<Rightarrow> string \<Rightarrow> parser_statics \<Rightarrow> 'p feed option outcome \<times> parser_statics" where
  "createFeed L cfg name st =
     (case feed_kind name of
        Some k \<Rightarrow> map_prod (omap Some) id (makeFeed L cfg k name st)
      | None \<Rightarrow> (Ret None, st))"

section \<open>Processing a line\<close>

text \<open>The four stores the feeds of a program share.\<close>

record stores =
  s_aircrafts :: aircraftData
  s_gps :: gpsData
  s_atmosphere :: atmosphereData
  s_wind :: windData

text \<open>
  What the environment provides: the regular expression engine, the clock at its three uses, and the value
  of an uninitialised local variable.
\<close>

record environment =
  e_re :: "regex \<Rightarrow> string \<Rightarrow> captures option"
  e_day :: uint32
  e_now :: int
  e_utc :: tm
  e_pos0 :: position

text \<open>
  The shape four of the five functions share: create an object with the feed's priority, unpack the line into
  it, and update the store if that worked.
\<close>

definition process_with ::
  "uint32 option \<Rightarrow> (uint32 \<Rightarrow> bool outcome \<times> dyn_object) \<Rightarrow> (dyn_object \<Rightarrow> 's \<Rightarrow> bool outcome \<times> 's) \<Rightarrow> 's \<Rightarrow>
     bool outcome \<times> 's" where
  "process_with priority unpack update s =
     (case priority of
        None \<Rightarrow> (UB, s)
      | Some p \<Rightarrow>
          (case unpack p of
             (Ret True, x) \<Rightarrow> (case update x s of (Ret _, s1) \<Rightarrow> (Ret True, s1) | (r, s1) \<Rightarrow> (r, s1))
           | (Ret False, x) \<Rightarrow> (Ret True, s)
           | (r, x) \<Rightarrow> (r, s)))"

definition aprs_unpack :: "environment \<Rightarrow> int \<Rightarrow> string \<Rightarrow> uint32 \<Rightarrow> bool outcome \<times> dyn_object" where
  "aprs_unpack e maxHeight response p =
     map_prod id DAircraft (AprsParser_unpack (e_re e) maxHeight (e_day e) (e_now e) response (Aircraft_new p))"

definition sbs_unpack :: "environment \<Rightarrow> int \<Rightarrow> string \<Rightarrow> uint32 \<Rightarrow> bool outcome \<times> dyn_object" where
  "sbs_unpack e maxHeight response p =
     map_prod id DAircraft (SbsParser_unpack (e_pos0 e) maxHeight (e_day e) (e_now e) response (Aircraft_new p))"

definition gps_unpack :: "environment \<Rightarrow> string \<Rightarrow> uint32 \<Rightarrow> bool outcome \<times> dyn_object" where
  "gps_unpack e response p =
     map_prod id DGpsPosition (GpsParser_unpack (e_re e) (e_day e) (e_now e) response (GpsPosition_new p))"

definition wind_unpack :: "string \<Rightarrow> uint32 \<Rightarrow> bool outcome \<times> dyn_object" where
  "wind_unpack response p = map_prod id DWind (WindParser_unpack response (Wind_new p))"

definition atm_unpack :: "string \<Rightarrow> uint32 \<Rightarrow> bool outcome \<times> dyn_object" where
  "atm_unpack response p = map_prod id DAtmosphere (AtmosphereParser_unpack response (Atmosphere_new p))"

definition AprscFeed_process ::
  "environment \<Rightarrow> parser_statics \<Rightarrow> 'p feed \<Rightarrow> string \<Rightarrow> aircraftData \<Rightarrow> bool outcome \<times> aircraftData" where
  "AprscFeed_process e st f response =
     process_with (f_priority f) (aprs_unpack e (aprs_maxHeight st) response) aircraft_update"

definition SbsFeed_process ::
  "environment \<Rightarrow> parser_statics \<Rightarrow> 'p feed \<Rightarrow> string \<Rightarrow> aircraftData \<Rightarrow> bool outcome \<times> aircraftData" where
  "SbsFeed_process e st f response =
     process_with (f_priority f) (sbs_unpack e (sbs_maxHeight st) response) aircraft_update"

text \<open>\<open>catch (const data::GpsDataException&)\<close>: the store needs no more positions.\<close>

fun is_GpsDataException :: "exn \<Rightarrow> bool" where
  "is_GpsDataException PositionAlreadyLocked = True"
| "is_GpsDataException ReceivedGoodPosition = True"
| "is_GpsDataException _ = False"

definition GpsFeed_process :: "environment \<Rightarrow> 'p feed \<Rightarrow> string \<Rightarrow> gpsData \<Rightarrow> bool outcome \<times> gpsData" where
  "GpsFeed_process e f response d =
     (case f_priority f of
        None \<Rightarrow> (UB, d)
      | Some p \<Rightarrow>
          (case gps_unpack e response p of
             (Ret True, x) \<Rightarrow>
               (case GpsData_update (e_utc e) x d of
                  (Ret _, d1) \<Rightarrow> (Ret True, d1)
                | (r, d1) \<Rightarrow> (ocatch is_GpsDataException r (Ret False), d1))
           | (Ret False, x) \<Rightarrow> (Ret True, d)
           | (r, x) \<Rightarrow> (r, d)))"

definition WindFeed_process :: "'p feed \<Rightarrow> string \<Rightarrow> windData \<Rightarrow> bool outcome \<times> windData" where
  "WindFeed_process f response = process_with (f_priority f) (wind_unpack response) WindData_update"

definition AtmosphereFeed_process :: "'p feed \<Rightarrow> string \<Rightarrow> atmosphereData \<Rightarrow> bool outcome \<times> atmosphereData" where
  "AtmosphereFeed_process f response = process_with (f_priority f) (atm_unpack response) AtmosphereData_update"

text \<open>The virtual function, on the shared stores.\<close>

definition Feed_process ::
  "environment \<Rightarrow> parser_statics \<Rightarrow> 'p feed \<Rightarrow> string \<Rightarrow> stores \<Rightarrow> bool outcome \<times> stores" where
  "Feed_process e st f response s =
     (case f_class f of
        AprscFeed \<Rightarrow> map_prod id (\<lambda>x. s\<lparr>s_aircrafts := x\<rparr>) (AprscFeed_process e st f response (s_aircrafts s))
      | SbsFeed \<Rightarrow> map_prod id (\<lambda>x. s\<lparr>s_aircrafts := x\<rparr>) (SbsFeed_process e st f response (s_aircrafts s))
      | GpsFeed \<Rightarrow> map_prod id (\<lambda>x. s\<lparr>s_gps := x\<rparr>) (GpsFeed_process e f response (s_gps s))
      | WindFeed \<Rightarrow> map_prod id (\<lambda>x. s\<lparr>s_wind := x\<rparr>) (WindFeed_process f response (s_wind s))
      | AtmosphereFeed \<Rightarrow>
          map_prod id (\<lambda>x. s\<lparr>s_atmosphere := x\<rparr>) (AtmosphereFeed_process f response (s_atmosphere s)))"

text \<open>A property tree for examples: a table of paths; the children of a section are the paths that start with its name.\<close>

definition sample_lib :: "(string \<times> string) list ptree_lib" where
  "sample_lib =
     \<lparr>pt_get = map_of,
      pt_child = (\<lambda>t n. let xs = filter (\<lambda>(k, v). starts_with k (n @ ''.'')) t
                         in if xs = [] then None else Some (map (\<lambda>(k, v). (drop (Suc (length n)) k, v)) xs)),
      pt_read = (\<lambda>s. Some [])\<rparr>"

abbreviation sample_stores :: stores where
  "sample_stores \<equiv>
     \<lparr>s_aircrafts = AircraftData_new 0, s_gps = GpsData_new sample_tm sample_fix False,
      s_atmosphere = AtmosphereData_new (Atmosphere_new 0), s_wind = WindData_new (Wind_new 0)\<rparr>"

abbreviation sample_env :: environment where
  "sample_env \<equiv> \<lparr>e_re = bt_match, e_day = 58000, e_now = 0, e_utc = sample_tm, e_pos0 = Position_zero\<rparr>"

abbreviation sample_statics :: parser_statics where
  "sample_statics \<equiv> \<lparr>aprs_maxHeight = 0, sbs_maxHeight = 0\<rparr>"

section \<open>Feeds and their stores\<close>

text \<open>A parser whose objects a store accepts. What a feed does then follows from the contract of the store.\<close>

locale feeding = data_store get_serialized update inv accepts
  for get_serialized :: "'s \<Rightarrow> string \<Rightarrow> string \<times> 's"
    and update :: "dyn_object \<Rightarrow> 's \<Rightarrow> bool outcome \<times> 's"
    and inv :: "'s \<Rightarrow> bool"
    and accepts :: "dyn_object \<Rightarrow> bool" +
  fixes unpack :: "string \<Rightarrow> uint32 \<Rightarrow> bool outcome \<times> dyn_object"
  assumes unpack_accepted: "accepts (snd (unpack response p))"
begin

lemma process_inv:
  assumes "inv s"
  shows "inv (snd (process_with priority (unpack response) update s))"
proof (cases priority)
  case (Some p)
  obtain r x where x: "unpack response p = (r, x)" by (cases "unpack response p")
  have "inv (snd (update x s))" using update_inv [OF assms, of x] unpack_accepted [of response p] x by simp
  then show ?thesis
    using Some x assms by (auto simp: process_with_def split: outcome.split bool.split prod.split)
qed (simp add: process_with_def assms)

lemma process_rejected:
  assumes "fst (unpack response p) = Ret False"
  shows "process_with (Some p) (unpack response) update s = (Ret True, s)"
  using assms by (cases "unpack response p") (simp add: process_with_def)

lemma process_defined:
  assumes "inv s" "fst (unpack response p) = Ret b"
  shows "fst (process_with (Some p) (unpack response) update s) \<noteq> UB"
proof -
  obtain x where x: "unpack response p = (Ret b, x)" using assms(2) by (metis prod.collapse)
  have "fst (update x s) \<noteq> UB" using update_defined [OF assms(1), of x] unpack_accepted [of response p] x by simp
  then show ?thesis using x by (cases b) (auto simp: process_with_def split: prod.split outcome.split)
qed

lemma process_returns:
  assumes "inv s" "fst (unpack response p) = Ret b" "\<And>x e. fst (update x s) \<noteq> Throw e"
  shows "fst (process_with (Some p) (unpack response) update s) = Ret True"
proof -
  obtain x where x: "unpack response p = (Ret b, x)" using assms(2) by (metis prod.collapse)
  have "fst (update x s) \<noteq> UB" using update_defined [OF assms(1), of x] unpack_accepted [of response p] x by simp
  then show ?thesis using x assms(3) [of x]
    by (cases b; cases "update x s") (auto simp: process_with_def split: outcome.split)
qed

end

interpretation aprs_feed: feeding aircraft_get aircraft_update ad_inv is_aircraft "aprs_unpack e maxHeight" for e maxHeight
  by unfold_locales (simp add: aprs_unpack_def)

interpretation sbs_feed: feeding aircraft_get aircraft_update ad_inv is_aircraft "sbs_unpack e maxHeight" for e maxHeight
  by unfold_locales (simp add: sbs_unpack_def)

interpretation gps_feed: feeding "GpsData_get_serialized utc" "GpsData_update utc" "\<lambda>d. \<not> gd_positionLocked d"
  is_gpsPosition "gps_unpack e" for utc e
  by unfold_locales (simp add: gps_unpack_def)

interpretation wind_feed: feeding WindData_get_serialized WindData_update "\<lambda>_. True" is_wind wind_unpack
  by unfold_locales (simp add: wind_unpack_def)

interpretation atm_feed: feeding AtmosphereData_get_serialized AtmosphereData_update "\<lambda>_. True" is_atmosphere atm_unpack
  by unfold_locales (simp add: atm_unpack_def)

definition stores_inv :: "stores \<Rightarrow> bool" where
  "stores_inv s \<longleftrightarrow> ad_inv (s_aircrafts s) \<and> \<not> gd_positionLocked (s_gps s)"

lemma GpsFeed_process_snd:
  "snd (GpsFeed_process e f response d) =
     snd (process_with (f_priority f) (gps_unpack e response) (GpsData_update (e_utc e)) d)"
  by (auto simp: GpsFeed_process_def process_with_def split: option.split prod.split outcome.split bool.split)

lemma sample_stores_inv: "stores_inv sample_stores"
  by (simp add: stores_inv_def AircraftData_new_def ad_inv_def GpsData_new_def)

text \<open>The part of the stores a class of feeds writes to.\<close>

definition same_but :: "feed_class \<Rightarrow> stores \<Rightarrow> stores \<Rightarrow> bool" where
  "same_but k s t \<longleftrightarrow>
     (k \<in> {AprscFeed, SbsFeed} \<or> s_aircrafts t = s_aircrafts s) \<and> (k = GpsFeed \<or> s_gps t = s_gps s) \<and>
     (k = WindFeed \<or> s_wind t = s_wind s) \<and> (k = AtmosphereFeed \<or> s_atmosphere t = s_atmosphere s)"

text \<open>
  Whatever line a feed processes, the stores keep their invariant, and a feed changes no store but its
  own.
\<close>

lemma Feed_process_keeps:
  assumes "stores_inv s"
  shows "stores_inv (snd (Feed_process e st f response s)) \<and>
    same_but (f_class f) s (snd (Feed_process e st f response s))"
  using assms aprs_feed.process_inv sbs_feed.process_inv gps_feed.process_inv
  by (cases "f_class f")
     (auto simp: Feed_process_def stores_inv_def same_but_def AprscFeed_process_def SbsFeed_process_def
        GpsFeed_process_snd)

lemma process_with_not_False: "fst (process_with pr u up s) \<noteq> Ret False"
  by (auto simp: process_with_def split: option.split prod.split outcome.split bool.split)

lemma gps_refuses_iff:
  assumes "\<not> gd_positionLocked d"
  shows "fst (GpsFeed_process e f response d) = Ret False \<longleftrightarrow>
    gd_groundMode d \<and> (\<exists>p x. f_priority f = Some p \<and> gps_unpack e response p = (Ret True, DGpsPosition x) \<and>
      GpsPosition_canUpdate x (gd_position d) \<and> isPositionGood (d\<lparr>gd_position := x\<rparr>))"
proof (cases "f_priority f")
  case (Some p)
  obtain r x where x: "gps_unpack e response p = (r, DGpsPosition x)"
    by (cases "GpsParser_unpack (e_re e) (e_day e) (e_now e) response (GpsPosition_new p)") (simp add: gps_unpack_def)
  have good: "isPositionGood (d\<lparr>gd_position := GpsPosition_assign (gd_position d) x\<rparr>) = isPositionGood (d\<lparr>gd_position := x\<rparr>)"
    by (simp add: isPositionGood_def GpsPosition_assign_def Object_assign_def)
  show ?thesis
  proof (cases r)
    case (Ret b)
    then show ?thesis
      using Some x good assms
      by (cases b)
         (auto simp: GpsFeed_process_def GpsData_update_def GpsPosition_tryUpdate_eq Let_def)
  next
    case (Throw ex)
    then show ?thesis using Some x by (auto simp: GpsFeed_process_def)
  qed (use Some x in \<open>auto simp: GpsFeed_process_def\<close>)
qed (simp add: GpsFeed_process_def)

lemma Feed_process_refuses:
  assumes "stores_inv s"
  shows "fst (Feed_process e st f response s) = Ret False \<longleftrightarrow>
    f_class f = GpsFeed \<and> gd_groundMode (s_gps s) \<and>
    (\<exists>p x. f_priority f = Some p \<and> gps_unpack e response p = (Ret True, DGpsPosition x) \<and>
       GpsPosition_canUpdate x (gd_position (s_gps s)) \<and> isPositionGood ((s_gps s)\<lparr>gd_position := x\<rparr>))"
  using assms gps_refuses_iff [of "s_gps s" e f response]
  by (cases "f_class f")
     (auto simp: Feed_process_def stores_inv_def AprscFeed_process_def SbsFeed_process_def WindFeed_process_def
        AtmosphereFeed_process_def process_with_not_False)

text \<open>
  A feed asks its client to stop exactly in ground mode: when it is a GPS feed and the line is a position that replaces the
  stored one and is good, with at least seven satellites, a fix and a small dilution. No other line and no other feed
  does.
\<close>

lemma Feed_process_refuses_iff:
  assumes "stores_inv s"
  shows "fst (Feed_process e st f response s) = Ret False \<longleftrightarrow>
    f_class f = GpsFeed \<and> gd_groundMode (s_gps s) \<and>
    (\<exists>p x. f_priority f = Some p \<and> gps_unpack e response p = (Ret True, DGpsPosition x) \<and>
       GpsPosition_canUpdate x (gd_position (s_gps s)) \<and> isPositionGood ((s_gps s)\<lparr>gd_position := x\<rparr>))"
  by (rule Feed_process_refuses [OF assms])

lemma Feed_process_refuses_iff_sample:
  "fst (Feed_process sample_env sample_statics
     \<lparr>f_class = WindFeed, f_name = ''wind'', f_properties = (), f_priority = Some 0\<rparr> ''x''
     sample_stores) \<noteq> Ret False"
  by (subst Feed_process_refuses_iff)
     (simp_all add: sample_stores_inv)

lemma aircraft_update_no_throw: "fst (aircraft_update x d) \<noteq> Throw ex"
  by (auto simp: aircraft_update_def AircraftData_update_def Let_def split: dyn_object.split option.split prod.split)

lemma gps_returns:
  assumes "\<not> gd_positionLocked d" "f_priority f = Some p" "fst (gps_unpack e response p) = Ret b"
  shows "\<exists>b. fst (GpsFeed_process e f response d) = Ret b"
proof -
  obtain x where x: "gps_unpack e response p = (Ret b, DGpsPosition x)"
    using assms(3) by (auto simp: gps_unpack_def map_prod_def split: prod.splits)
  show ?thesis
    using assms(1, 2) x
    by (cases b) (auto simp: GpsFeed_process_def GpsData_update_def GpsPosition_tryUpdate_eq Let_def)
qed



text \<open>
  C38: Creating a feed from a configured section: the keyword in the name decides on its class; it fails, always with
  \<open>std::logic_error\<close>, exactly if the host, the port or an APRS feed's login is missing; otherwise the feed has the section's
  properties, and an endpoint whose host and port are not empty.
\<close>

theorem createFeed_spec:
  assumes "cfg_feedProperties cfg name = Some p"
  shows "case fst (createFeed L cfg name st) of
      Ret None \<Rightarrow> feed_kind name = None
    | Ret (Some f) \<Rightarrow> feed_kind name = Some (f_class f) \<and> f_name f = name \<and> f_properties f = p \<and>
        host (get_endpoint L f) \<noteq> [] \<and> port (get_endpoint L f) \<noteq> [] \<and>
        (f_class f = AprscFeed \<longrightarrow> get_login L f \<notin> {[], ''-''})
    | Throw e \<Rightarrow> e = Logic_error \<and> feed_kind name \<noteq> None \<and>
        (get_property L p KV_KEY_HOST [] = [] \<or> get_property L p KV_KEY_PORT [] = [] \<or>
         feed_kind name = Some AprscFeed \<and> get_property L p KV_KEY_LOGIN ''-'' = ''-'')
    | UB \<Rightarrow> False"
proof (cases "feed_kind name")
  case (Some k)
  have login: "get_property L p KV_KEY_LOGIN [] \<notin> {[], ''-''}" if "get_property L p KV_KEY_LOGIN ''-'' \<noteq> ''-''"
    using that by (auto simp: get_property_def Let_def split: option.splits if_splits)
  show ?thesis
    using assms Some login
    by (cases k) (auto simp: createFeed_def makeFeed_def properties_at_def AprscFeed_new_def SbsFeed_new_def Feed_new_def
        get_endpoint_def get_login_def)
qed (simp add: createFeed_def)

theorem createFeed_spec_witness:
  "\<exists>f. fst (createFeed sample_lib
     \<lparr>cfg_position = sample_fix, cfg_atmPressure = ICAO_STD_A, cfg_maxHeight = 0, cfg_maxDistance = 0,
      cfg_serverPort = 4353, cfg_groundMode = False, cfg_feedNames = [''gps1''],
      cfg_feedProperties = [''gps1'' \<mapsto> [(''host'', ''h''), (''port'', ''1'')]]\<rparr> ''gps1'' sample_statics) = Ret (Some f) \<and>
     f_class f = GpsFeed \<and> host (get_endpoint sample_lib f) \<noteq> []"
  (is "\<exists>f. fst (createFeed _ ?cfg _ _) = _ \<and> _")
proof -
  have "cfg_feedProperties ?cfg ''gps1'' = Some [(''host'', ''h''), (''port'', ''1'')]" by simp
  moreover have "feed_kind ''gps1'' = Some GpsFeed" by code_simp
  moreover have "get_property sample_lib [(''host'', ''h''), (''port'', ''1'')] KV_KEY_HOST [] = ''h''"
    "get_property sample_lib [(''host'', ''h''), (''port'', ''1'')] KV_KEY_PORT [] = ''1''"
    by (simp_all add: get_property_def sample_lib_def KV_KEY_HOST_def KV_KEY_PORT_def)
  ultimately show ?thesis
    using createFeed_spec [of ?cfg "''gps1''" _ sample_lib sample_statics]
    by (auto split: outcome.splits option.splits)
qed

text \<open>
  A feed whose section gives no priority is created all the same, but has no priority: the first line it processes reads
  an indeterminate value.
\<close>

lemma missing_priority_is_undefined:
  assumes "Feed_new L k name p = Ret f" "get_property L p KV_KEY_PRIORITY [] = []"
  shows "Feed_process e st f response s = (UB, s)"
proof -
  have "initPriority L p = None"
    using assms(2) by (simp add: initPriority_def stoul_def c_str_def scan_int_def take_sign_def)
  then have "f_priority f = None" using assms(1) by (auto simp: Feed_new_def split: if_splits)
  then show ?thesis
    by (cases "f_class f") (simp_all add: Feed_process_def AprscFeed_process_def SbsFeed_process_def GpsFeed_process_def
        WindFeed_process_def AtmosphereFeed_process_def process_with_def)
qed

lemma missing_priority_is_undefined_sample:
  "Feed_process sample_env sample_statics
     \<lparr>f_class = SbsFeed, f_name = ''sbs'', f_properties = [(''host'', ''h''), (''port'', ''1'')], f_priority = None\<rparr>
     sample_sbs sample_stores = (UB, sample_stores)"
  by (rule missing_priority_is_undefined [of sample_lib SbsFeed "''sbs''" "[(''host'', ''h''), (''port'', ''1'')]"])
     (simp_all add: Feed_new_def get_property_def sample_lib_def KV_KEY_HOST_def KV_KEY_PORT_def KV_KEY_PRIORITY_def
        initPriority_def stoul_def c_str_def scan_int_def take_sign_def)

end
