(* ===== verification/Client_Machine.thy ===== *)
theory Client_Machine
  imports Client
begin

text \<open>
  The invariant of a client's state machine, its proof for every handler and step, and the properties
  that follow for all reachable states.
\<close>

section \<open>The virtual functions in one equation\<close>

lemma Client_read_eq:
  "Client_read c =
     use (onRead HandleRead) (if cl_class c = SensorClient then use (resetTimer WC_RCV_TIMEOUT) c else c)"
  by (simp add: Client_read_def base_read_def)

lemma handleConnect_eq:
  "handleConnect error c =
     (if cl_state c = CONNECTING then
        if error = SUCCESS then
          (case cl_class c of
             AprscClient login \<Rightarrow> use (onWrite login HandleLogin) c
           | SbsClient \<Rightarrow> Client_read (c\<lparr>cl_state := RUNNING\<rparr>)
           | GpsdClient \<Rightarrow> use (onWrite watch_request HandleWatch) c
           | SensorClient \<Rightarrow>
               Client_read (use (onTimeout CheckDeadline WC_RCV_TIMEOUT) (c\<lparr>cl_state := RUNNING\<rparr>)))
        else reconnect c
      else c)"
  by (simp add: handleConnect_def AprscClient_handleConnect_def SbsClient_handleConnect_def
      GpsdClient_handleConnect_def SensorClient_handleConnect_def split: client_class.split)

section \<open>The invariant\<close>

text \<open>
  The handlers whose operation leads towards a connection. Each kind of handler belongs to an operation
  and to a class.
\<close>

fun est_cb :: "callback \<Rightarrow> bool" where
  "est_cb HandleConnect = True"
| "est_cb HandleTimedConnect = True"
| "est_cb HandleLogin = True"
| "est_cb HandleWatch = True"
| "est_cb _ = False"

abbreviation est :: "pending \<Rightarrow> bool" where "est p \<equiv> est_cb (p_cb p)"

fun cb_fits :: "client_class \<Rightarrow> io_op \<Rightarrow> callback \<Rightarrow> bool" where
  "cb_fits k x HandleConnect = ((\<exists>ep. x = Resolve ep) \<or> x = Connect)"
| "cb_fits k x HandleTimedConnect = (x = Wait)"
| "cb_fits k x HandleRead = (x = Read)"
| "cb_fits k x HandleLogin = ((\<exists>l. k = AprscClient l) \<and> (\<exists>m. x = Write m))"
| "cb_fits k x HandleSendKeepAlive = ((\<exists>l. k = AprscClient l) \<and> x = Wait)"
| "cb_fits k x HandleBeacon = ((\<exists>l. k = AprscClient l) \<and> (\<exists>m. x = Write m))"
| "cb_fits k x HandleWatch = (k = GpsdClient \<and> (\<exists>m. x = Write m))"
| "cb_fits k x HandleUnwatch = (k = GpsdClient \<and> (\<exists>m. x = Write m))"
| "cb_fits k x CheckDeadline = (k = SensorClient \<and> x = Wait)"

abbreviation fits :: "client_class \<Rightarrow> pending \<Rightarrow> bool" where
  "fits k p \<equiv> cb_fits k (p_op p) (p_cb p)"

text \<open>The timer a class keeps armed while it is running.\<close>

fun armed :: "client_class \<Rightarrow> callback set \<Rightarrow> bool" where
  "armed (AprscClient l) cbs = (HandleSendKeepAlive \<in> cbs)"
| "armed SensorClient cbs = (CheckDeadline \<in> cbs)"
| "armed _ cbs = True"

abbreviation handlers :: "connector \<Rightarrow> callback set" where
  "handlers k \<equiv> p_cb ` set (co_pending k)"

definition well :: "client_class \<Rightarrow> connector \<Rightarrow> bool" where
  "well k co = list_all (fits k) (co_pending co)"

lemma well_iff: "well k co \<longleftrightarrow> (\<forall>p \<in> set (co_pending co). fits k p)"
  by (simp add: well_def list_all_iff)

definition calm :: "client_class \<Rightarrow> connector \<Rightarrow> bool" where
  "calm k co \<longleftrightarrow> well k co \<and> \<not> co_stopped co \<and> filter est (co_pending co) = []"

definition connecting :: "client_class \<Rightarrow> connector \<Rightarrow> bool" where
  "connecting k co \<longleftrightarrow>
     well k co \<and> \<not> co_stopped co \<and>
     (\<exists>p. filter est (co_pending co) = [p] \<and>
       (p_cb p = HandleTimedConnect \<longrightarrow> \<not> p_cancelled p \<and> (\<exists>t. co_expiry co = At t)) \<and>
       (p_cb p = HandleLogin \<or> p_cb p = HandleWatch \<longrightarrow> co_open co))"

definition running :: "client_class \<Rightarrow> connector \<Rightarrow> bool" where
  "running k co \<longleftrightarrow>
     calm k co \<and> co_open co \<and> HandleRead \<in> handlers co \<and> armed k (handlers co)"

text \<open>A stopped event loop is never used again; only the kinds of the handlers matter then.\<close>

fun phase_inv :: "state \<Rightarrow> client_class \<Rightarrow> connector \<Rightarrow> bool" where
  "phase_inv NONE k co = (\<not> co_open co \<and> co_pending co = [])"
| "phase_inv CONNECTING k co = connecting k co"
| "phase_inv RUNNING k co = running k co"
| "phase_inv STOPPING k co = False"

definition cl_inv :: "'f client \<Rightarrow> bool" where
  "cl_inv c = (if co_stopped (cl_connector c) then well (cl_class c) (cl_connector c) \<and> cl_state c \<noteq> RUNNING
               else phase_inv (cl_state c) (cl_class c) (cl_connector c))"

text \<open>What the connector's operations do to the pending operations.\<close>

lemma use_simps [simp]:
  "cl_connector (use f c) = f (cl_connector c)" "cl_state (use f c) = cl_state c"
  "cl_class (use f c) = cl_class c" "cl_feeds (use f c) = cl_feeds c" "cl_endpoint (use f c) = cl_endpoint c"
  by (simp_all add: use_def)

lemma start_op_simps [simp]:
  "co_open (start_op x cb co) = co_open co" "co_stopped (start_op x cb co) = co_stopped co"
  "co_expiry (start_op x cb co) = co_expiry co" "co_now (start_op x cb co) = co_now co"
  "handlers (start_op x cb co) = insert cb (handlers co)"
  "well k (start_op x cb co) \<longleftrightarrow> cb_fits k x cb \<and> well k co"
  "filter est (co_pending (start_op x cb co)) =
     filter est (co_pending co) @ (if est_cb cb then [\<lparr>p_op = x, p_cb = cb, p_cancelled = False, p_late = False\<rparr>] else [])"
  by (auto simp: start_op_def well_iff)

lemma calm_start_op [simp]: "calm k (start_op x cb co) \<longleftrightarrow> cb_fits k x cb \<and> \<not> est_cb cb \<and> calm k co"
  by (auto simp: calm_def)

lemma cancel_simps [simp]:
  "co_open (cancel w co) = co_open co" "co_stopped (cancel w co) = co_stopped co"
  "co_expiry (cancel w co) = co_expiry co" "co_now (cancel w co) = co_now co"
  "handlers (cancel w co) = handlers co" "well k (cancel w co) = well k co" "calm k (cancel w co) = calm k co"
proof -
  have "map p_cb (co_pending (cancel w co)) = map p_cb (co_pending co)" by (simp add: cancel_def)
  then show "handlers (cancel w co) = handlers co" by (metis set_map)
  have "fits k (if b then p\<lparr>p_cancelled := True, p_late := l\<rparr> else p) = fits k p" for b l p by simp
  then show w: "well k (cancel w co) = well k co"
    by (simp add: well_def cancel_def list.pred_map comp_def del: list.set_map set_map)
  have "filter est (co_pending (cancel w co)) = [] \<longleftrightarrow> filter est (co_pending co) = []"
    by (simp add: cancel_def filter_map comp_def if_distrib [of est_cb] if_distrib [of p_cb] cong: if_cong)
  then show "calm k (cancel w co) = calm k co" using w by (auto simp: calm_def cancel_def)
qed (simp_all add: cancel_def)

lemma well_flags [simp]:
  "well k (co\<lparr>co_open := b\<rparr>) = well k co" "calm k (co\<lparr>co_open := b\<rparr>) = calm k co"
  "well k (co\<lparr>co_stopped := b\<rparr>) = well k co"
  "well k (co\<lparr>co_expiry := x\<rparr>) = well k co" "calm k (co\<lparr>co_expiry := x\<rparr>) = calm k co"
  "well k (co\<lparr>co_now := n\<rparr>) = well k co" "calm k (co\<lparr>co_now := n\<rparr>) = calm k co"
  by (simp_all add: well_iff calm_def)

lemma expires_at_simps [simp]:
  "co_open (expires_at x co) = co_open co" "co_stopped (expires_at x co) = co_stopped co"
  "co_expiry (expires_at x co) = x" "co_now (expires_at x co) = co_now co"
  "handlers (expires_at x co) = handlers co" "well k (expires_at x co) = well k co" "calm k (expires_at x co) = calm k co"
  by (simp_all add: expires_at_def)

lemma close_simps [simp]:
  "co_stopped (Connector_close co) = co_stopped co" "\<not> co_open (Connector_close co)"
  "co_expiry (Connector_close co) = pos_infin" "co_now (Connector_close co) = co_now co"
  "well k (Connector_close co) = well k co" "calm k (Connector_close co) = calm k co"
proof -
  show "well k (Connector_close co) = well k co" "calm k (Connector_close co) = calm k co"
    by (simp_all add: Connector_close_def Let_def)
qed (simp_all add: Connector_close_def Let_def)

lemma resetTimer_simps [simp]: "resetTimer t co = expires_at (At (co_now co + seconds t)) co"
  by (simp add: resetTimer_def)

lemma connecting_start_op:
  "calm k co \<Longrightarrow> est_cb cb \<Longrightarrow> cb_fits k x cb \<Longrightarrow> (cb = HandleLogin \<or> cb = HandleWatch \<longrightarrow> co_open co) \<Longrightarrow>
     (cb = HandleTimedConnect \<longrightarrow> (\<exists>t. co_expiry co = At t)) \<Longrightarrow> connecting k (start_op x cb co)"
  by (auto simp: connecting_def calm_def)

lemma reconnect_inv:
  "calm (cl_class c) (cl_connector c) \<Longrightarrow> cl_state c \<noteq> STOPPING \<Longrightarrow> 
     cl_inv (reconnect c) \<and> \<not> co_stopped (cl_connector (reconnect c))"
  by (simp add: cl_inv_def reconnect_def timedConnect_def onTimeout_def connecting_start_op C_CON_WAIT_TIMEVAL_def)
     (simp add: calm_def)

lemma connect_inv: 
  "calm (cl_class c) (cl_connector c) \<Longrightarrow> cl_inv (connect c) \<and> \<not> co_stopped (cl_connector (connect c))"
  by (simp add: cl_inv_def connect_def onConnect_def connecting_start_op) (simp add: calm_def)

lemma well_phase: "cl_inv c \<Longrightarrow> well (cl_class c) (cl_connector c)"
  by (cases "cl_state c")
     (auto simp: cl_inv_def connecting_def running_def calm_def well_iff Connector_new_def split: if_splits)

lemma read_answer: "cl_inv c \<Longrightarrow> p \<in> set (co_pending (cl_connector c)) \<Longrightarrow> p_cb p = HandleRead \<Longrightarrow> may_answer co p e"
  using well_phase [of c] by (auto simp: well_iff may_answer_def)

lemma Client_stop_stops:
  assumes "well (cl_class c) (cl_connector c)" "cl_state c \<in> {RUNNING, CONNECTING}"
  shows "cl_state (Client_stop c) = STOPPING \<and> co_stopped (cl_connector (Client_stop c)) \<and> cl_inv (Client_stop c)"
  using assms
  by (auto simp: Client_stop_def onWrite_def base_stop_def Connector_stop_def cl_inv_def)

lemma Client_stop_idle [simp]: "cl_state c \<notin> {RUNNING, CONNECTING} \<Longrightarrow> Client_stop c = c"
  by (simp add: Client_stop_def base_stop_def)

lemma armed_insert: "armed k cbs \<Longrightarrow> armed k (insert cb cbs)"
  by (cases k) auto

lemma read_inv:
  assumes "calm (cl_class c) (cl_connector c)" "co_open (cl_connector c)" "cl_state c = RUNNING"
    and "armed (cl_class c) (handlers (cl_connector c))"
  shows "cl_inv (Client_read c) \<and> \<not> co_stopped (cl_connector (Client_read c))"
  using assms armed_insert [OF assms(4)]
  by (cases "cl_class c")
     (simp_all add: cl_inv_def Client_read_eq onRead_def running_def, simp_all add: calm_def)

lemma read_stopped:
  assumes "cl_inv c" "co_stopped (cl_connector c)"
  shows "cl_inv (Client_read c) \<and> co_stopped (cl_connector (Client_read c))"
  using assms by (auto simp: cl_inv_def Client_read_eq onRead_def)

lemma feed_loop_cases:
  assumes "well (cl_class c) (cl_connector c)" "cl_state c = RUNNING"
  shows "feed_loop proc response fs c = c \<and> (\<forall>f \<in> set fs. proc f response) \<or>
    co_stopped (cl_connector (feed_loop proc response fs c)) \<and> cl_inv (feed_loop proc response fs c) \<and>
    (\<exists>f \<in> set fs. \<not> proc f response)"
proof -
  have stopped: "feed_loop proc response fs c = c" if "cl_state c = STOPPING" for fs c
    using that by (induction fs arbitrary: c) auto
  show ?thesis
    using assms
  proof (induction fs arbitrary: c)
    case (Cons f fs)
    then show ?case
      using Client_stop_stops [of c] stopped [of "Client_stop c" fs] by (cases "proc f response") auto
  qed simp
qed

text \<open>Completing an operation takes it off the list.\<close>

abbreviation pend :: "'f client \<Rightarrow> pending set" where
  "pend c \<equiv> set (co_pending (cl_connector c))"

lemma remove_pending_simps [simp]:
  "cl_state (remove_pending p c) = cl_state c" "cl_class (remove_pending p c) = cl_class c"
  "cl_feeds (remove_pending p c) = cl_feeds c"
  "co_open (cl_connector (remove_pending p c)) = co_open (cl_connector c)"
  "co_stopped (cl_connector (remove_pending p c)) = co_stopped (cl_connector c)"
  "co_expiry (cl_connector (remove_pending p c)) = co_expiry (cl_connector c)"
  "co_now (cl_connector (remove_pending p c)) = co_now (cl_connector c)"
  by (simp_all add: remove_pending_def)

lemma remove_well: "well k (cl_connector c) \<Longrightarrow> well k (cl_connector (remove_pending p c))"
  using set_remove1_subset by (fastforce simp: remove_pending_def well_iff)

lemma remove_other:
  "cb \<in> handlers (cl_connector c) \<Longrightarrow> p_cb p \<noteq> cb \<Longrightarrow> cb \<in> handlers (cl_connector (remove_pending p c))"
  by (auto simp: remove_pending_def image_iff) (metis in_set_remove1)

lemma remove_est_calm:
  assumes "connecting k (cl_connector c)" "p \<in> pend c" "est p"
  shows "calm k (cl_connector (remove_pending p c))" "p_cb p = HandleTimedConnect \<Longrightarrow> \<not> p_cancelled p"
    "p_cb p = HandleLogin \<or> p_cb p = HandleWatch \<Longrightarrow> co_open (cl_connector c)"
proof -
  obtain q where q: "filter est (co_pending (cl_connector c)) = [q]"
      "p_cb q = HandleTimedConnect \<longrightarrow> \<not> p_cancelled q"
      "p_cb q = HandleLogin \<or> p_cb q = HandleWatch \<longrightarrow> co_open (cl_connector c)"
    using assms(1) by (auto simp: connecting_def)
  have "p \<in> set (filter est (co_pending (cl_connector c)))" using assms(2, 3) by simp
  then have "p = q" using q(1) by simp
  then show "calm k (cl_connector (remove_pending p c))"
    using q(1) assms(1) remove_well [of k c p]
    by (simp add: calm_def connecting_def remove_pending_def filter_remove1)
  show "p_cb p = HandleTimedConnect \<Longrightarrow> \<not> p_cancelled p" using q(2) \<open>p = q\<close> by simp
  show "p_cb p = HandleLogin \<or> p_cb p = HandleWatch \<Longrightarrow> co_open (cl_connector c)" using q(3) \<open>p = q\<close> by simp
qed

lemma remove_stale_connecting:
  assumes "connecting k (cl_connector c)" "\<not> est p"
  shows "connecting k (cl_connector (remove_pending p c))"
proof -
  have "filter est (remove1 p ps) = filter est ps" for ps
    using assms(2) by (simp add: filter_remove1 remove1_idem)
  then show ?thesis
    using assms(1) remove_well [of k c p] by (simp add: connecting_def remove_pending_def)
qed

lemma remove_calm: "calm k (cl_connector c) \<Longrightarrow> calm k (cl_connector (remove_pending p c))"
  using remove_well [of k c p] by (simp add: calm_def remove_pending_def filter_remove1)


section \<open>The handlers keep the invariant\<close>

abbreviation live :: "'f client \<Rightarrow> bool" where
  "live c \<equiv> cl_inv c \<and> \<not> co_stopped (cl_connector c)"

lemma write_live:
  assumes "calm (cl_class c) (cl_connector c)" "cl_state c = CONNECTING" "co_open (cl_connector c)"
    and "est_cb cb" "cb_fits (cl_class c) (Write m) cb"
  shows "cl_inv (use (onWrite m cb) c)" "\<not> co_stopped (onWrite m cb (cl_connector c))"
proof -
  show s: "\<not> co_stopped (onWrite m cb (cl_connector c))" using assms(1) by (simp add: onWrite_def calm_def)
  show "cl_inv (use (onWrite m cb) c)"
    using assms s by (cases cb) (simp_all add: cl_inv_def onWrite_def connecting_start_op)
qed

text \<open>The operation that leads towards the connection is over.\<close>

lemma dispatch_connecting:
  assumes "calm (cl_class c) (cl_connector c)" "cl_state c = CONNECTING" "est_cb cb" "cb_fits (cl_class c) x cb"
    and "e = SUCCESS \<Longrightarrow> cb \<noteq> HandleTimedConnect \<Longrightarrow> co_open (cl_connector c)"
    and "cb = HandleTimedConnect \<Longrightarrow> e = SUCCESS"
  shows "live (dispatch proc cb e r c)"
proof (cases cb)
  case HandleConnect
  show ?thesis
  proof (cases e)
    case SUCCESS
    then show ?thesis
      using assms HandleConnect
      by (cases "cl_class c")
         (simp_all add: handleConnect_eq write_live read_inv onTimeout_def WC_RCV_TIMEOUT_def)
  qed (use assms HandleConnect in \<open>simp add: handleConnect_eq reconnect_inv\<close>)
next
  case HandleTimedConnect
  then show ?thesis using assms by (simp add: handleTimedConnect_def connect_inv)
next
  case HandleLogin
  then obtain l where "cl_class c = AprscClient l" using assms(4) by auto
  then show ?thesis
    using assms HandleLogin
    by (cases e)
       (simp_all add: handleLogin_def reconnect_inv sendKeepAlive_def onTimeout_def AC_BEACON_INT_def read_inv)
next
  case HandleWatch
  then show ?thesis
    using assms by (cases e) (simp_all add: handleWatch_def reconnect_inv read_inv)
qed (use assms(3) in simp_all)

text \<open>An operation of an earlier or the running connection is over.\<close>

lemma dispatch_stale:
  assumes "cl_state c = CONNECTING" "\<not> est_cb cb"
  shows "dispatch proc cb e r c = c"
  using assms by (cases cb)
    (simp_all add: handleRead_def handleSendKeepAlive_def handleBeacon_def checkDeadline_def)

lemma read_handler_running:
  assumes "calm (cl_class c) (cl_connector c)" "co_open (cl_connector c)" "cl_state c = RUNNING"
    and "armed (cl_class c) (handlers (cl_connector c))"
  shows "cl_inv (handleRead proc e r c)"
    and "co_stopped (cl_connector (handleRead proc e r c)) \<Longrightarrow>
           e = SUCCESS \<and> (\<exists>f \<in> set (cl_feeds c). \<not> proc f r)"
proof -
  have w: "well (cl_class c) (cl_connector c)" using assms(1) by (simp add: calm_def)
  show "cl_inv (handleRead proc e r c)"
    and "co_stopped (cl_connector (handleRead proc e r c)) \<Longrightarrow>
           e = SUCCESS \<and> (\<exists>f \<in> set (cl_feeds c). \<not> proc f r)"
    using assms feed_loop_cases [OF w assms(3), of proc r "cl_feeds c"] read_inv [of c] reconnect_inv [of c]
      read_stopped [of "feed_loop proc r (cl_feeds c) c"]
    by (cases e; auto simp: handleRead_def)+
qed

text \<open>What holds between the removal of an operation and the new start of a timer.\<close>

abbreviation nearly :: "'f client \<Rightarrow> bool" where
  "nearly c \<equiv> cl_state c = RUNNING \<and> calm (cl_class c) (cl_connector c) \<and> co_open (cl_connector c) \<and>
     HandleRead \<in> handlers (cl_connector c)"

lemma nearly_running: "nearly c \<Longrightarrow> armed (cl_class c) (handlers (cl_connector c)) \<Longrightarrow> live c"
  by (simp add: cl_inv_def running_def) (simp add: calm_def)

lemma sendKeepAlive_live:
  assumes "nearly c" "cl_class c = AprscClient l"
  shows "live (sendKeepAlive c)"
proof (rule nearly_running)
  show "nearly (sendKeepAlive c)" "armed (cl_class (sendKeepAlive c)) (handlers (cl_connector (sendKeepAlive c)))"
    using assms by (simp_all add: sendKeepAlive_def onTimeout_def AC_BEACON_INT_def)
qed

lemma beacon_live:
  assumes "nearly c" "cl_class c = AprscClient l"
  shows "live (sendKeepAlive (use (onWrite m HandleBeacon) c))"
  by (rule sendKeepAlive_live) (use assms in \<open>auto simp: onWrite_def\<close>)

lemma deadline_live:
  assumes "nearly c" "cl_class c = SensorClient"
  shows "live (use (onTimeout CheckDeadline 0) c)"
  by (rule nearly_running) (use assms in \<open>simp_all add: onTimeout_def\<close>)


lemma dispatch_running:
  assumes "running (cl_class c) (cl_connector c)" "cl_state c = RUNNING" "p \<in> pend c"
  and d: "d = dispatch proc (p_cb p) e r (remove_pending p c)"
  shows "cl_inv d"
    and "co_stopped (cl_connector d) \<Longrightarrow>
       p_op p = Read \<and> e = SUCCESS \<and> (\<exists>f \<in> set (cl_feeds c). \<not> proc f r)"
proof -
  let ?c = "remove_pending p c"
  have calm0: "calm (cl_class c) (cl_connector c)" and opn: "co_open (cl_connector c)"
    and rd: "HandleRead \<in> handlers (cl_connector c)" and ar: "armed (cl_class c) (handlers (cl_connector c))"
    using assms(1) by (simp_all add: running_def)
  then have fits: "fits (cl_class c) p" and est: "\<not> est p" and live: "\<not> co_stopped (cl_connector c)"
    using assms(3) by (simp_all add: calm_def well_iff filter_empty_conv)
  note calm = remove_calm [OF calm0, of p]
  have rest: "live d" if "p_cb p \<noteq> HandleRead"
  proof -
    have n: "nearly ?c" using rd that assms(2) calm opn by (simp add: remove_other)
    have still: "live ?c" if "p_cb p \<noteq> HandleSendKeepAlive" "p_cb p \<noteq> CheckDeadline"
      by (rule nearly_running [OF n]) (use ar that in \<open>cases "cl_class c"; simp add: remove_other\<close>)
    show ?thesis
      using n est fits that d still reconnect_inv [of ?c] beacon_live [of ?c] sendKeepAlive_live [of ?c] deadline_live [of ?c]
      by (cases "p_cb p"; cases e)
         (auto simp: handleSendKeepAlive_def handleBeacon_def checkDeadline_def)
  qed
  have "armed (cl_class c) (handlers (cl_connector ?c))" if "p_cb p = HandleRead"
    using ar that by (cases "cl_class c") (simp_all add: remove_other)
  then show "cl_inv d" and "co_stopped (cl_connector d) \<Longrightarrow>
       p_op p = Read \<and> e = SUCCESS \<and> (\<exists>f \<in> set (cl_feeds c). \<not> proc f r)"
    using rest read_handler_running [of ?c proc e r] calm opn assms(2) fits unfolding d by (cases "p_cb p = HandleRead"; simp)+
qed

section \<open>Every step keeps the invariant\<close>

lemma fits_est_cases:
  assumes "cb_fits k x cb"
  shows "\<not> est_cb cb \<Longrightarrow> x = Read \<or> (\<exists>m. x = Write m) \<or> x = Wait"
    and "x = Resolve ep \<or> x = Connect \<Longrightarrow> cb = HandleConnect"
    and "cb = HandleConnect \<Longrightarrow> (\<exists>ep. x = Resolve ep) \<or> x = Connect"
    and "cb = HandleTimedConnect \<Longrightarrow> x = Wait"
  using assms by (cases cb; auto)+

lemma complete_connecting:
  assumes "connecting (cl_class c) (cl_connector c)" "cl_state c = CONNECTING" "p \<in> pend c" "may_answer (cl_connector c) p e"
  shows "live (complete proc p e r c)"
proof -
  let ?c = "remove_pending p c"
  have fits: "fits (cl_class c) p" using assms(1, 3) by (simp add: connecting_def well_iff)
  show ?thesis
  proof (cases "est p")
    case False
    have "connecting (cl_class c) (cl_connector ?c)" by (rule remove_stale_connecting [OF assms(1) False])
    then have "live ?c" using assms(2) by (simp add: cl_inv_def connecting_def)
    then show ?thesis
      using fits_est_cases(1) [OF fits False] dispatch_stale [of ?c "p_cb p" proc e r] assms(2) False
      by (auto simp: complete_def)
  next
    case True
    note est = remove_est_calm [OF assms(1, 3) True]
    have timed: "p_cb p = HandleTimedConnect \<Longrightarrow> e = SUCCESS"
      using est(2) assms(4) fits_est_cases(4) [OF fits] by (simp add: may_answer_def)
    show ?thesis
    proof (cases "p_cb p = HandleConnect")
      case conn: True
      let ?o = "use (\<lambda>k. k\<lparr>co_open := True\<rparr>) ?c"
      have d: "live (dispatch proc HandleConnect FAILURE r ?c)" "live (dispatch proc HandleConnect SUCCESS r ?o)"
        using dispatch_connecting [of ?c HandleConnect Connect FAILURE proc r]
          dispatch_connecting [of ?o HandleConnect Connect SUCCESS proc r] est(1) assms(2) by simp_all
      have "connecting (cl_class c) (start_op Connect HandleConnect (cl_connector ?c))"
        using est(1) by (simp add: connecting_start_op)
      then have "live (use (start_op Connect HandleConnect) ?c)"
        using assms(2) by (simp add: cl_inv_def connecting_def)
      then show ?thesis
        using fits_est_cases(3) [OF fits conn] d conn by (cases e) (auto simp: complete_def)
    next
      case False
      have "live (dispatch proc (p_cb p) e r ?c)"
        using dispatch_connecting [of ?c "p_cb p" "p_op p" e proc r] est assms(2) True fits False timed
        by (cases "p_cb p") auto
      then show ?thesis
        using fits_est_cases(2) [OF fits] False by (cases "p_op p") (auto simp: complete_def)
    qed
  qed
qed

lemma complete_running:
  assumes "running (cl_class c) (cl_connector c)" "cl_state c = RUNNING" "p \<in> pend c"
  shows "cl_inv (complete proc p e r c)"
    and "co_stopped (cl_connector (complete proc p e r c)) \<Longrightarrow>
       p_op p = Read \<and> e = SUCCESS \<and> (\<exists>f \<in> set (cl_feeds c). \<not> proc f r)"
proof -
  have "fits (cl_class c) p" "\<not> est p"
    using assms(1, 3) by (simp_all add: running_def calm_def well_iff filter_empty_conv)
  then have c: "complete proc p e r c = dispatch proc (p_cb p) e r (remove_pending p c)"
    using fits_est_cases(1) by (fastforce simp: complete_def)
  show "cl_inv (complete proc p e r c)"
    and "co_stopped (cl_connector (complete proc p e r c)) \<Longrightarrow>
       p_op p = Read \<and> e = SUCCESS \<and> (\<exists>f \<in> set (cl_feeds c). \<not> proc f r)"
    unfolding c using dispatch_running [OF assms refl] by blast+
qed

text \<open>After the stop a late handler changes nothing but, at most, starts a connection that is never awaited.\<close>

lemma dispatch_stopping:
  assumes "cl_state c = STOPPING"
  shows "dispatch proc cb e r c = c \<or> dispatch proc cb e r c = connect c"
  using assms by (cases cb)
    (auto simp: handleConnect_eq handleTimedConnect_def scheduleStop_def handleRead_def handleLogin_def
      handleSendKeepAlive_def handleBeacon_def handleWatch_def checkDeadline_def)

lemma complete_stopping:
  assumes "cl_inv c" "co_stopped (cl_connector c)" "cl_state c = STOPPING" "p \<in> pend c"
  shows "cl_inv (complete proc p e r c) \<and> co_stopped (cl_connector (complete proc p e r c))"
proof -
  let ?dead = "\<lambda>c :: 'a client. well (cl_class c) (cl_connector c) \<and> co_stopped (cl_connector c) \<and> cl_state c \<noteq> RUNNING"
  have dead: "?dead (remove_pending p c)" and fits: "fits (cl_class c) p"
    using assms remove_well [of "cl_class c" c p] by (simp_all add: cl_inv_def) (simp add: well_iff)
  have "?dead (dispatch proc (p_cb p) e r d)" if "?dead d" "cl_state d = STOPPING" for d
    using that dispatch_stopping [OF that(2), of proc "p_cb p" e r] by (auto simp: connect_def onConnect_def)
  from this [of "remove_pending p c"] this [of "use (\<lambda>k. k\<lparr>co_open := True\<rparr>) (remove_pending p c)"]
  have "?dead (complete proc p e r c)"
    using dead assms(3) fits_est_cases(2) [OF fits]
    by (cases "p_op p"; cases e; simp add: complete_def)
  then show ?thesis by (simp add: cl_inv_def)
qed

lemma complete_inv:
  assumes "cl_inv c" "p \<in> pend c" "\<not> co_stopped (cl_connector c) \<or> cl_state c = STOPPING" "may_answer (cl_connector c) p e"
  shows "cl_inv (complete proc p e r c)"
    and "\<not> co_stopped (cl_connector c) \<Longrightarrow> co_stopped (cl_connector (complete proc p e r c)) \<Longrightarrow>
       cl_state c = RUNNING \<and> p_op p = Read \<and> e = SUCCESS \<and> (\<exists>f \<in> set (cl_feeds c). \<not> proc f r)"
  using assms complete_stopping [of c p proc e r] complete_running [of c p proc e r]
    complete_connecting [of c p e proc r]
  by (cases "cl_state c"; force simp: cl_inv_def Connector_new_def split: if_splits)+

lemma elapse_simps [simp]:
  "cl_state (elapse d c) = cl_state c" "cl_class (elapse d c) = cl_class c" "cl_feeds (elapse d c) = cl_feeds c"
  "cl_endpoint (elapse d c) = cl_endpoint c"
  "cl_connector (elapse d c) = (cl_connector c)\<lparr>co_now := co_now (cl_connector c) + d\<rparr>"
  by (simp_all add: elapse_def)

lemma phase_inv_now [simp]: "phase_inv s k (co\<lparr>co_now := n\<rparr>) = phase_inv s k co"
  by (cases s) (simp_all add: connecting_def running_def)

lemma elapse_inv [simp]: "cl_inv (elapse d c) = cl_inv c"
  by (simp add: cl_inv_def)

lemma cl_step_inv:
  assumes "cl_step proc c c'" "cl_inv c"
  shows "cl_inv c'"
  using assms
proof (cases rule: cl_step.cases)
  case run
  show ?thesis
  proof (cases "cl_state c = NONE \<and> \<not> co_stopped (cl_connector c)")
    case True
    then have "calm (cl_class c) (cl_connector c)"
      using assms(2) by (simp add: cl_inv_def calm_def well_def Connector_new_def)
    then show ?thesis using run True connect_inv [of c] by (simp add: Client_run_def)
  next
    case False
    then show ?thesis
      using run assms(2) by (auto simp: Client_run_def cl_inv_def connect_def onConnect_def)
  qed
next
  case (completed p e response)
  then show ?thesis using complete_inv(1) assms(2) by blast
next
  case ended
  then show ?thesis using well_phase [OF assms(2)] by (simp add: cl_inv_def loop_ended_def)
next
  case stop
  then show ?thesis
    using Client_stop_stops [OF well_phase [OF assms(2)]] assms(2)
    by (cases "cl_state c \<in> {RUNNING, CONNECTING}") (simp_all add: scheduleStop_def)
next
  case (subscribe f)
  then show ?thesis using assms(2) by (simp add: Client_subscribe_def cl_inv_def)
qed simp


section \<open>Reachable clients\<close>

definition fresh :: "'f client \<Rightarrow> bool" where
  "fresh c \<longleftrightarrow> (\<exists>k ep. c = Client_new k ep)"

interpretation cl: transition_system fresh "cl_step proc" for proc .

lemma reach_inv: "cl.reach proc c \<Longrightarrow> cl_inv c"
proof (induction rule: cl.reach.induct)
  case (start c)
  then show ?case by (auto simp: fresh_def cl_inv_def Client_new_def Connector_new_def)
qed (auto intro: cl_step_inv)

lemma cl_run_inv:
  assumes "(cl_step proc)\<^sup>*\<^sup>* (Client_new k ep) c"
  shows "cl_inv c"
proof (rule reach_inv)
  show "cl.reach proc c"
    by (rule cl.reach_run [OF assms], rule cl.reach.start) (auto simp: fresh_def)
qed

text \<open>In the running program the answers of the feeds change from line to line; a move of a client is a step with any answers.\<close>

definition cl_move :: "'f client \<Rightarrow> 'f client \<Rightarrow> bool" where
  "cl_move c c' \<longleftrightarrow> (\<exists>proc. cl_step proc c c')"

definition cl_reached :: "'f client \<Rightarrow> bool" where
  "cl_reached c \<longleftrightarrow> (\<exists>k ep. cl_move\<^sup>*\<^sup>* (Client_new k ep) c)"

lemma cl_move_refl: "cl_move c c"
  using cl_step.elapse [of undefined c 0] by (auto simp: cl_move_def elapse_def use_def)

lemma cl_reached_new: "cl_reached (Client_new k ep)"
  by (auto simp: cl_reached_def)

lemma cl_reached_move: "cl_reached c \<Longrightarrow> cl_move c c' \<Longrightarrow> cl_reached c'"
  by (auto simp: cl_reached_def intro: rtranclp.rtrancl_into_rtrancl)

lemma cl_reached_step: "cl_reached c \<Longrightarrow> cl_step proc c c' \<Longrightarrow> cl_reached c'"
  by (rule cl_reached_move) (auto simp: cl_move_def)

lemma cl_reached_inv:
  assumes "cl_reached c"
  shows "cl_inv c"
proof -
  obtain k ep where "cl_move\<^sup>*\<^sup>* (Client_new k ep) c" using assms by (auto simp: cl_reached_def)
  then show ?thesis
  proof (induction rule: rtranclp_induct)
    case base
    show ?case by (rule cl_run_inv [OF rtranclp.rtrancl_refl])
  qed (auto simp: cl_move_def intro: cl_step_inv)
qed

lemma stopped_step:
  assumes "cl_inv c" "cl_step proc c c'" "co_stopped (cl_connector c)"
  shows "co_stopped (cl_connector c')"
  using assms(2, 3)
proof (cases rule: cl_step.cases)
  case (completed p e response)
  then show ?thesis using complete_stopping assms(1, 3) by blast
qed (auto simp: Client_run_def connect_def onConnect_def loop_ended_def scheduleStop_def Client_stop_def
      base_stop_def Connector_stop_def onWrite_def Client_subscribe_def)

lemma stopped_run:
  assumes "(cl_step proc)\<^sup>*\<^sup>* c c'" "cl_inv c" "co_stopped (cl_connector c)"
  shows "co_stopped (cl_connector c') \<and> cl_inv c'"
  using assms by (induction rule: rtranclp_induct) (auto intro: stopped_step cl_step_inv)

lemma moved_stopped:
  assumes "cl_move\<^sup>*\<^sup>* c c'" "cl_inv c" "co_stopped (cl_connector c)"
  shows "co_stopped (cl_connector c') \<and> cl_inv c'"
  using assms by (induction rule: rtranclp_induct) (auto simp: cl_move_def intro: stopped_step cl_step_inv)

lemma live_connecting: "live c \<Longrightarrow> cl_state c = CONNECTING \<Longrightarrow> connecting (cl_class c) (cl_connector c)"
  unfolding cl_inv_def by auto

lemma live_running: "live c \<Longrightarrow> cl_state c = RUNNING \<Longrightarrow> running (cl_class c) (cl_connector c)"
  unfolding cl_inv_def by auto

text \<open>The steps left until the connection stands; a timer has to run off first.\<close>

fun op_rank :: "bool \<Rightarrow> pending \<Rightarrow> nat" where
  "op_rank expired p =
     (case p_op p of Wait \<Rightarrow> if expired then 4 else 5 | Resolve _ \<Rightarrow> 3 | Connect \<Rightarrow> 2 | _ \<Rightarrow> 1)"

definition conn_rank :: "'f client \<Rightarrow> nat" where
  "conn_rank c = sum_list (map (op_rank (timerExpired (cl_connector c))) (filter est (co_pending (cl_connector c))))"

lemma timer_runs_off:
  assumes "co_expiry (cl_connector c) = At t"
  shows "timerExpired (cl_connector (elapse (t - co_now (cl_connector c)) c))"
  using assms by (simp add: timerExpired_def)

lemma connecting_est:
  assumes "live c" "cl_state c = CONNECTING"
  obtains p where "filter est (co_pending (cl_connector c)) = [p]" "p \<in> pend c" "est p" "fits (cl_class c) p"
    "p_op p = Wait \<Longrightarrow> \<not> p_cancelled p" "p_op p = Wait \<Longrightarrow> \<exists>t. co_expiry (cl_connector c) = At t"
proof -
  note con = live_connecting [OF assms]
  then obtain p where p: "filter est (co_pending (cl_connector c)) = [p]"
      "p_cb p = HandleTimedConnect \<longrightarrow> \<not> p_cancelled p \<and> (\<exists>t. co_expiry (cl_connector c) = At t)"
    by (auto simp: connecting_def)
  then have "p \<in> set (filter est (co_pending (cl_connector c)))" by simp
  then have pp: "p \<in> pend c" "est p" by auto
  moreover have fits: "fits (cl_class c) p" using con pp by (simp add: connecting_def well_iff)
  moreover have "p_op p = Wait \<longrightarrow> p_cb p = HandleTimedConnect" using fits pp(2) by (cases "p_cb p") auto
  ultimately show thesis using that p by blast
qed

lemma conn_completion:
  assumes "live c" "cl_state c = CONNECTING" "filter est (co_pending (cl_connector c)) = [p]" "est p" "fits (cl_class c) p"
    and "p_op p = Wait \<longrightarrow> timerExpired (cl_connector c)"
  shows "cl_state (complete proc p SUCCESS [] c) = RUNNING \<or>
    cl_state (complete proc p SUCCESS [] c) = CONNECTING \<and> conn_rank (complete proc p SUCCESS [] c) < conn_rank c"
proof -
  have rest: "filter est (remove1 p (co_pending (cl_connector c))) = []" using assms(3) by (simp add: filter_remove1)
  have r: "conn_rank c = op_rank (timerExpired (cl_connector c)) p" by (simp add: conn_rank_def assms(3))
  show ?thesis
    unfolding r using assms(2, 4, 5, 6) rest
    by (cases "p_cb p"; cases "cl_class c")
       (auto simp: complete_def handleConnect_eq handleTimedConnect_def handleLogin_def handleWatch_def
         connect_def onConnect_def onWrite_def Client_read_eq sendKeepAlive_def conn_rank_def remove_pending_def)
qed

lemma conn_rank_step:
  assumes "live c" "cl_state c = CONNECTING"
  obtains c' where "cl_step proc c c'" "live c'" 
    "0 < conn_rank c" "cl_state c' = RUNNING \<or> cl_state c' = CONNECTING \<and> conn_rank c' < conn_rank c"
proof -
  obtain p where p: "filter est (co_pending (cl_connector c)) = [p]" "p \<in> pend c" "est p" "fits (cl_class c) p"
      "p_op p = Wait \<Longrightarrow> \<not> p_cancelled p" "p_op p = Wait \<Longrightarrow> \<exists>t. co_expiry (cl_connector c) = At t"
    using connecting_est [OF assms] by blast
  have pos: "0 < conn_rank c" by (simp add: conn_rank_def p(1) split: io_op.split)
  show thesis
  proof (cases "p_op p = Wait \<and> \<not> timerExpired (cl_connector c)")
    case True
    then obtain t where t: "co_expiry (cl_connector c) = At t" using p(6) by blast
    let ?c = "elapse (t - co_now (cl_connector c)) c"
    have "conn_rank ?c < conn_rank c"
      using True timer_runs_off [OF t] by (simp add: conn_rank_def p(1))
    then show ?thesis using that [OF cl_step.elapse] assms pos by simp
  next
    case False
    then have ok: "may_answer (cl_connector c) p SUCCESS" using p(5) by (simp add: may_answer_def)
    have "cl_step proc c (complete proc p SUCCESS [] c)" using completed [OF p(2) _ ok] assms(1) by blast
    moreover have "live (complete proc p SUCCESS [] c)"
      by (rule complete_connecting [OF live_connecting [OF assms] assms(2) p(2) ok])
    ultimately show ?thesis using that conn_completion [OF assms p(1, 3, 4)] False pos by blast
  qed
qed

lemma establish:
  assumes "live c" "cl_state c \<in> {CONNECTING, RUNNING}" "conn_rank c \<le> n"
  shows "\<exists>m \<le> n. \<exists>c'. (cl_step proc ^^ m) c c' \<and> live c' \<and> cl_state c' = RUNNING"
  using assms
proof (induction n arbitrary: c)
  case 0
  then have "cl_state c = RUNNING" using conn_rank_step [of c proc thesis for thesis] by auto
  then show ?case using 0 by (intro exI [of _ 0]) auto
next
  case (Suc n)
  show ?case
  proof (cases "cl_state c = RUNNING")
    case True
    then show ?thesis using Suc.prems(1) by (intro exI [of _ 0]) auto
  next
    case False
    then obtain c' where c': "cl_step proc c c'" "live c'" and
        s: "cl_state c' = RUNNING \<or> cl_state c' = CONNECTING \<and> conn_rank c' < conn_rank c"
      using conn_rank_step [OF Suc.prems(1), of proc] Suc.prems(2) by blast
    from s have "\<exists>m \<le> n. \<exists>d. (cl_step proc ^^ m) c' d \<and> live d \<and> cl_state d = RUNNING"
    proof
      assume "cl_state c' = RUNNING"
      then show ?thesis using c'(2) by (intro exI [of _ 0]) auto
    next
      assume "cl_state c' = CONNECTING \<and> conn_rank c' < conn_rank c"
      then show ?thesis using Suc.IH [OF c'(2)] Suc.prems(3) by simp
    qed
    then obtain m d where "m \<le> n" "(cl_step proc ^^ m) c' d" "live d" "cl_state d = RUNNING" by blast
    moreover have "(cl_step proc ^^ Suc m) c d"
      using relpowp_Suc_I2 [of "cl_step proc", OF c'(1)] \<open>(cl_step proc ^^ m) c' d\<close> by blast
    ultimately show ?thesis by (metis Suc_le_mono)
  qed
qed

lemma conn_rank_le:
  assumes "live c" "cl_state c = CONNECTING"
  shows "conn_rank c \<le> 5"
proof -
  obtain p where "filter est (co_pending (cl_connector c)) = [p]"
    using live_connecting [OF assms] by (auto simp: connecting_def)
  then show ?thesis by (simp add: conn_rank_def split: io_op.split)
qed

text \<open>Scripted runs: the completions of the first operation with a given handler, one after the other.\<close>

fun drive :: "('f \<Rightarrow> string \<Rightarrow> bool) \<Rightarrow> (callback \<times> errorCode \<times> string) list \<Rightarrow> 'f client \<Rightarrow> 'f client" where
  "drive proc [] c = c"
| "drive proc ((cb, e, r) # evs) c =
     (case find (\<lambda>p. p_cb p = cb) (co_pending (cl_connector c)) of
        Some p \<Rightarrow> if \<not> co_stopped (cl_connector c) \<and> may_answer (cl_connector c) p e
          then drive proc evs (complete proc p e r c) else c
      | None \<Rightarrow> c)"

lemma drive_run: "(cl_step proc)\<^sup>*\<^sup>* c (drive proc evs c)"
proof (induction proc evs c rule: drive.induct)
  case (2 proc cb e r evs c)
  show ?case
  proof (cases "find (\<lambda>p. p_cb p = cb) (co_pending (cl_connector c))")
    case (Some p)
    then have "p \<in> pend c" by (auto simp: find_Some_iff)
    then show ?thesis
      using 2 [OF Some] Some completed [of p c e proc r] by (auto intro: converse_rtranclp_into_rtranclp)
  qed simp
qed simp

lemma scripted_run:
  "(cl_step proc)\<^sup>*\<^sup>* (Client_new k ep) (drive proc evs (Client_run (Client_subscribe f (Client_new k ep))))"
  using cl_step.subscribe [of proc "Client_new k ep" f] cl_step.run [of proc "Client_subscribe f (Client_new k ep)"]
    drive_run [of proc "Client_run (Client_subscribe f (Client_new k ep))" evs]
  by (metis converse_rtranclp_into_rtranclp)

lemmas scripted =
  Client_new_def Client_run_def Client_subscribe_def connect_def onConnect_def Connector_new_def start_op_def use_def
  may_answer_def complete_def remove_pending_def handleConnect_eq Client_read_eq onRead_def
  handleRead_def Client_stop_def base_stop_def Connector_stop_def Connector_close_def cancel_def

section \<open>Properties of the clients\<close>

text \<open>
  C5: In every state a client can get into, as long as it was not stopped: before it is run it has
  started nothing; while it is connecting exactly one operation is under way towards the
  connection, and a reconnect timer among them is never cancelled; while it is running its socket is
  open, a read is under way, no second connection attempt is, and the APRS client's keep-alive timer and the
  sensor client's deadline timer are armed.
\<close>

theorem client_phases:
  assumes "(cl_step proc)\<^sup>*\<^sup>* (Client_new k ep) c" "\<not> co_stopped (cl_connector c)"
  shows "case cl_state c of
      NONE \<Rightarrow> \<not> co_open (cl_connector c) \<and> co_pending (cl_connector c) = []
    | CONNECTING \<Rightarrow>
        \<exists>p. filter est (co_pending (cl_connector c)) = [p] \<and> (p_op p = Wait \<longrightarrow> \<not> p_cancelled p)
    | RUNNING \<Rightarrow>
        co_open (cl_connector c) \<and> filter est (co_pending (cl_connector c)) = [] \<and>
        Read \<in> p_op ` pend c \<and> armed (cl_class c) (handlers (cl_connector c))
    | STOPPING \<Rightarrow> False"
proof -
  have inv: "phase_inv (cl_state c) (cl_class c) (cl_connector c)"
    using cl_run_inv [OF assms(1)] assms(2) by (simp add: cl_inv_def)
  show ?thesis
  proof (cases "cl_state c")
    case CONNECTING
    then have con: "connecting (cl_class c) (cl_connector c)" using inv by simp
    then obtain p where p: "filter est (co_pending (cl_connector c)) = [p]"
        "p_cb p = HandleTimedConnect \<longrightarrow> \<not> p_cancelled p" by (auto simp: connecting_def)
    then have "p \<in> set (filter est (co_pending (cl_connector c)))" by simp
    then have "fits (cl_class c) p" "est p" using con by (simp_all add: connecting_def well_iff)
    then have "p_op p = Wait \<longrightarrow> p_cb p = HandleTimedConnect" by (cases "p_cb p") auto
    then show ?thesis using CONNECTING p by auto
  next
    case RUNNING
    then have run: "running (cl_class c) (cl_connector c)" using inv by simp
    then obtain p where "p \<in> pend c" "p_cb p = HandleRead" "fits (cl_class c) p"
      by (auto simp: running_def calm_def well_iff)
    then have "Read \<in> p_op ` pend c" by force
    then show ?thesis using RUNNING run by (simp add: running_def calm_def)
  qed (use inv in simp_all)
qed

theorem client_phases_witness:
  "let c = drive (\<lambda>f r. True) [(HandleConnect, SUCCESS, []), (HandleConnect, SUCCESS, [])]
     (Client_run (Client_subscribe 0 (Client_new SbsClient \<lparr>host = ''a'', port = ''1''\<rparr> :: nat client)))
   in cl_state c = RUNNING \<and> co_open (cl_connector c) \<and> Read \<in> p_op ` pend c"
  using client_phases [OF scripted_run [of "\<lambda>f r. True" SbsClient "\<lparr>host = ''a'', port = ''1''\<rparr>"
      "[(HandleConnect, SUCCESS, []), (HandleConnect, SUCCESS, [])]" "0 :: nat"]]
  by (simp add: scripted)

text \<open>
  C14: A client gives up by itself only because of a feed: when the completion of an operation stops the event loop of a
  client that was running or connecting, then it was the successful read of a line that a subscribed feed
  refused. A failure of the network, whatever operation it hits, never ends a client.
\<close>

theorem only_feed_stops_client:
  assumes "(cl_step proc)\<^sup>*\<^sup>* (Client_new k ep) c" "\<not> co_stopped (cl_connector c)"
    and "p \<in> set (co_pending (cl_connector c))" "may_answer (cl_connector c) p e"
    and "co_stopped (cl_connector (complete proc p e response c))"
  shows "cl_state c = RUNNING \<and> p_op p = Read \<and> e = SUCCESS \<and> (\<exists>f \<in> set (cl_feeds c). \<not> proc f response)"
  using complete_inv(2) [OF cl_run_inv [OF assms(1)] assms(3) _ assms(4)] assms(2, 5) by blast

theorem only_feed_stops_client_witness:
  "let c = drive (\<lambda>f r. False) [(HandleConnect, SUCCESS, []), (HandleConnect, SUCCESS, [])]
     (Client_run (Client_subscribe 0 (Client_new SbsClient \<lparr>host = ''a'', port = ''1''\<rparr> :: nat client)))
   in cl_state c = RUNNING \<and> (\<exists>f \<in> set (cl_feeds c). \<not> (\<lambda>f r. False) f ''x'')"
  using only_feed_stops_client [OF scripted_run [of "\<lambda>f r. False" SbsClient "\<lparr>host = ''a'', port = ''1''\<rparr>"
      "[(HandleConnect, SUCCESS, []), (HandleConnect, SUCCESS, [])]" "0 :: nat"],
      of "\<lparr>p_op = Read, p_cb = HandleRead, p_cancelled = False, p_late = False\<rparr>" SUCCESS "''x''"]
  by (simp add: scripted)



text \<open>
  C33: A stop is final: once the event loop of a client was stopped it stays so, whatever handlers are still under way and
  however often the client is run or stopped again, and the client never gets back to the state in which
  it hands lines to its feeds.
\<close>

theorem stop_is_final:
  assumes "(cl_step proc)\<^sup>*\<^sup>* (Client_new k ep) c" "co_stopped (cl_connector c)" "(cl_step proc)\<^sup>*\<^sup>* c c'"
  shows "co_stopped (cl_connector c') \<and> cl_state c' \<noteq> RUNNING"
  using stopped_run [OF assms(3) cl_run_inv [OF assms(1)] assms(2)] by (auto simp: cl_inv_def)

theorem stop_is_final_witness:
  "let c = drive (\<lambda>f r. False) [(HandleConnect, SUCCESS, []), (HandleConnect, SUCCESS, []), (HandleRead, SUCCESS, ''x'')]
     (Client_run (Client_subscribe 0 (Client_new SbsClient \<lparr>host = ''a'', port = ''1''\<rparr> :: nat client)))
   in cl_state c = STOPPING \<and> co_stopped (cl_connector (Client_run c)) \<and> cl_state (Client_run c) \<noteq> RUNNING"
  using stop_is_final [OF scripted_run [of "\<lambda>f r. False" SbsClient "\<lparr>host = ''a'', port = ''1''\<rparr>"
      "[(HandleConnect, SUCCESS, []), (HandleConnect, SUCCESS, []), (HandleRead, SUCCESS, ''x'')]" "0 :: nat"]
      _ r_into_rtranclp [where r = "cl_step (\<lambda>f r. False)", OF cl_step.run]]
  by (simp add: scripted)

end
