(* ===== verification/Client_Manager.thy ===== *)
theory Client_Manager
  imports Feeds Client_Machine "HOL-Library.Multiset"
begin

text \<open>
  \<open>ClientFactory\<close> and \<open>ClientManager\<close>: one client per endpoint, each in a thread of its own. Feeds and clients are
  shared objects, so a feed carries the address of its object, and clients live in a table of objects.
\<close>

section \<open>Equality and hash of clients\<close>

text \<open>\<open>boost::hash_value\<close> and \<open>boost::hash_combine\<close>.\<close>

record hash_lib =
  hash_value :: "string \<Rightarrow> 64 word"
  hash_combine :: "64 word \<Rightarrow> 64 word \<Rightarrow> 64 word"

type_synonym 'p feed_ref = "nat \<times> 'p feed"
type_synonym 'p fclient = "'p feed_ref client"

definition base_hash :: "hash_lib \<Rightarrow> 'f client \<Rightarrow> 64 word" where
  "base_hash H c =
     hash_combine H (hash_combine H 0 (hash_value H (host (cl_endpoint c)))) (hash_value H (port (cl_endpoint c)))"

definition client_hash :: "hash_lib \<Rightarrow> 'f client \<Rightarrow> 64 word" where
  "client_hash H c =
     (case cl_class c of
        AprscClient login \<Rightarrow> hash_combine H (base_hash H c) (hash_value H login)
      | _ \<Rightarrow> base_hash H c)"

definition endpoint_eq :: "endpoint \<Rightarrow> endpoint \<Rightarrow> bool" where
  "endpoint_eq a b \<longleftrightarrow> host a = host b \<and> port a = port b"

definition base_equals :: "'f client \<Rightarrow> 'f client \<Rightarrow> bool" where
  "base_equals this other \<longleftrightarrow> endpoint_eq (cl_endpoint this) (cl_endpoint other)"

definition AprscClient_equals :: "string \<Rightarrow> 'f client \<Rightarrow> 'f client \<Rightarrow> bool" where
  "AprscClient_equals m_login this other \<longleftrightarrow>
     (case cl_class other of
        AprscClient login' \<Rightarrow> base_equals this other \<and> m_login = login'
      | _ \<Rightarrow> False)"

text \<open>\<open>this->equals(other)\<close>: the APRS client wants the other to be one, the others only compare endpoints.\<close>

definition client_equals :: "'f client \<Rightarrow> 'f client \<Rightarrow> bool" where
  "client_equals this other \<longleftrightarrow>
     (case cl_class this of
        AprscClient m_login \<Rightarrow> AprscClient_equals m_login this other
      | _ \<Rightarrow> base_equals this other)"

section \<open>The factory\<close>

definition createClientFor :: "'p ptree_lib \<Rightarrow> 'p feed_ref \<Rightarrow> 'p fclient" where
  "createClientFor L f =
     (case get_protocol (snd f) of
        APRS \<Rightarrow> AprscClient_new (get_endpoint L (snd f)) (get_login L (snd f))
      | SBS \<Rightarrow> SbsClient_new (get_endpoint L (snd f))
      | GPS \<Rightarrow> GpsdClient_new (get_endpoint L (snd f))
      | SENSOR \<Rightarrow> SensorClient_new (get_endpoint L (snd f)))"

section \<open>The manager\<close>

text \<open>
  \<open>cm_objects\<close> are the client objects by address, \<open>cm_clients\<close> is the hash set \<open>m_clients\<close> of addresses and
  \<open>cm_threads\<close> are the addresses whose thread has not ended.
\<close>

record 'p clientManager =
  cm_objects :: "'p fclient list"
  cm_clients :: "nat list"
  cm_threads :: "nat list"

definition ClientManager_new :: "'p clientManager" where
  "ClientManager_new = \<lparr>cm_objects = [], cm_clients = [], cm_threads = []\<rparr>"

text \<open>
  Looking up a key in the hash set: an element with the same hash to which the key says it is equal.
\<close>

definition set_find :: "hash_lib \<Rightarrow> 'p fclient \<Rightarrow> 'p clientManager \<Rightarrow> nat option" where
  "set_find H key m =
     find (\<lambda>a. client_hash H key = client_hash H (cm_objects m ! a) \<and> client_equals key (cm_objects m ! a)) (cm_clients m)"

definition on_client :: "nat \<Rightarrow> ('p fclient \<Rightarrow> 'p fclient) \<Rightarrow> 'p clientManager \<Rightarrow> 'p clientManager" where
  "on_client a g m = m\<lparr>cm_objects := (cm_objects m)[a := g (cm_objects m ! a)]\<rparr>"

text \<open>\<open>insert\<close> yields the element that is already there, or inserts the new client.\<close>

definition ClientManager_subscribe ::
  "'p ptree_lib \<Rightarrow> hash_lib \<Rightarrow> 'p feed_ref \<Rightarrow> 'p clientManager \<Rightarrow> 'p clientManager" where
  "ClientManager_subscribe L H f m =
     (let c = createClientFor L f in
      case set_find H c m of
        Some a \<Rightarrow> on_client a (Client_subscribe f) m
      | None \<Rightarrow>
          let a = length (cm_objects m)
          in on_client a (Client_subscribe f) (m\<lparr>cm_objects := cm_objects m @ [c], cm_clients := cm_clients m @ [a]\<rparr>))"

fun subscribe_all :: "'p ptree_lib \<Rightarrow> hash_lib \<Rightarrow> 'p feed_ref list \<Rightarrow> 'p clientManager \<Rightarrow> 'p clientManager" where
  "subscribe_all L H [] m = m"
| "subscribe_all L H (f # fs) m = subscribe_all L H fs (ClientManager_subscribe L H f m)"

text \<open>
  The struct \<open>thread_group\<close>: \<open>create_thread\<close> adds a thread for a client, \<open>join_all\<close> waits for the end of all of them, which is over in the states
  where it holds.
\<close>

definition create_thread :: "nat \<Rightarrow> 'p clientManager \<Rightarrow> 'p clientManager" where
  "create_thread a m = m\<lparr>cm_threads := cm_threads m @ [a]\<rparr>"

definition join_all :: "'p clientManager \<Rightarrow> bool" where
  "join_all m \<longleftrightarrow> cm_threads m = []"

definition ClientManager_run :: "'p clientManager \<Rightarrow> 'p clientManager" where
  "ClientManager_run m = fold create_thread (cm_clients m) m"

text \<open>The end of a thread: \<open>m_clients.erase(it)\<close> removes the element that equals the key.\<close>

definition thread_end :: "hash_lib \<Rightarrow> nat \<Rightarrow> 'p clientManager \<Rightarrow> 'p clientManager" where
  "thread_end H a m =
     (case set_find H (cm_objects m ! a) m of
        Some b \<Rightarrow> m\<lparr>cm_clients := remove1 b (cm_clients m), cm_threads := remove1 a (cm_threads m)\<rparr>
      | None \<Rightarrow> m\<lparr>cm_threads := remove1 a (cm_threads m)\<rparr>)"

text \<open>\<open>stop\<close> up to the point where it waits for the threads.\<close>

definition ClientManager_stop :: "'p clientManager \<Rightarrow> 'p clientManager" where
  "ClientManager_stop m = fold (\<lambda>a. on_client a scheduleStop) (cm_clients m) m"

lemma ClientManager_run_eq: "ClientManager_run m = m\<lparr>cm_threads := cm_threads m @ cm_clients m\<rparr>"
proof -
  have "fold create_thread as m = m\<lparr>cm_threads := cm_threads m @ as\<rparr>" for as and m :: "'a clientManager"
    by (induction as arbitrary: m) (simp_all add: create_thread_def)
  then show ?thesis by (simp add: ClientManager_run_def)
qed

section \<open>Subscribing the feeds\<close>

lemmas client_equals_defs = client_equals_def AprscClient_equals_def base_equals_def

text \<open>The key says it is the element: same hash, and equal.\<close>

definition matches :: "hash_lib \<Rightarrow> 'p fclient \<Rightarrow> 'p fclient \<Rightarrow> bool" where
  "matches H key c \<longleftrightarrow> client_hash H key = client_hash H c \<and> client_equals key c"

lemma endpoint_eq_iff [simp]: "endpoint_eq a b \<longleftrightarrow> a = b"
  by (cases a; cases b) (simp add: endpoint_eq_def)

lemma equals_endpoint: "client_equals c d \<Longrightarrow> cl_endpoint c = cl_endpoint d"
  by (auto simp: client_equals_defs split: client_class.splits)

lemma same_class_matches:
  "cl_class c = cl_class d \<Longrightarrow> cl_endpoint c = cl_endpoint d \<Longrightarrow> matches H c d"
  by (simp add: matches_def client_hash_def client_equals_defs base_hash_def split: client_class.split)

lemma created_simps [simp]:
  "cl_endpoint (createClientFor L f) = get_endpoint L (snd f)" "cl_feeds (createClientFor L f) = []"
  "cl_state (createClientFor L f) = NONE" "cl_connector (createClientFor L f) = Connector_new"
  by (simp_all add: createClientFor_def Client_new_def AprscClient_new_def split: protocol.split)

lemma subscribe_simps [simp]:
  "cl_endpoint (Client_subscribe f c) = cl_endpoint c" "cl_class (Client_subscribe f c) = cl_class c"
  "cl_feeds (Client_subscribe f c) = cl_feeds c @ [f]" "cl_state (Client_subscribe f c) = cl_state c"
  "cl_connector (Client_subscribe f c) = cl_connector c"
  by (simp_all add: Client_subscribe_def)

lemma matches_subscribe [simp]:
  "matches H c (Client_subscribe f d) = matches H c d" "matches H (Client_subscribe f c) d = matches H c d"
  by (simp_all add: matches_def client_hash_def client_equals_defs base_hash_def split: client_class.split)

text \<open>A client was made for one of its feeds, and all of them have its endpoint.\<close>

definition serves :: "'p ptree_lib \<Rightarrow> 'p fclient \<Rightarrow> bool" where
  "serves L c \<longleftrightarrow>
     (\<forall>f \<in> set (cl_feeds c). get_endpoint L (snd f) = cl_endpoint c) \<and>
     (\<exists>f \<in> set (cl_feeds c). cl_class c = cl_class (createClientFor L f))"

definition subscribed :: "'p ptree_lib \<Rightarrow> hash_lib \<Rightarrow> 'p feed_ref list \<Rightarrow> 'p clientManager \<Rightarrow> bool" where
  "subscribed L H fs m \<longleftrightarrow>
     cm_clients m = [0..<length (cm_objects m)] \<and>
     mset (concat (map cl_feeds (cm_objects m))) = mset fs \<and>
     (\<forall>c \<in> set (cm_objects m). serves L c) \<and>
     (\<forall>j < length (cm_objects m). \<forall>i < j. \<not> matches H (cm_objects m ! j) (cm_objects m ! i))"

lemma set_find_new:
  assumes "subscribed L H fs m" "set_find H c m = None" "i < length (cm_objects m)"
  shows "\<not> matches H c (cm_objects m ! i)"
  using assms by (auto simp: set_find_def find_None_iff subscribed_def matches_def)

lemma set_find_old:
  assumes "subscribed L H fs m" "set_find H c m = Some a"
  shows "a < length (cm_objects m)" "matches H c (cm_objects m ! a)"
  using assms by (auto simp: set_find_def find_Some_iff subscribed_def matches_def)

lemma mset_concat_update:
  assumes "a < length xs"
  shows "mset (concat (map g (xs[a := y]))) + mset (g (xs ! a)) = mset (concat (map g xs)) + mset (g y)"
proof -
  have xs: "xs = take a xs @ xs ! a # drop (Suc a) xs" using assms by (simp add: id_take_nth_drop)
  have "xs[a := y] = take a xs @ y # drop (Suc a) xs" using assms by (simp add: upd_conv_take_nth_drop)
  then show ?thesis by (subst (3) xs) (simp add: ac_simps)
qed

lemma subscribe_keeps:
  assumes "subscribed L H fs m"
  shows "subscribed L H (fs @ [f]) (ClientManager_subscribe L H f m)"
proof (cases "set_find H (createClientFor L f) m")
  case None
  let ?c = "Client_subscribe f (createClientFor L f)"
  have m: "ClientManager_subscribe L H f m =
      m\<lparr>cm_objects := cm_objects m @ [?c], cm_clients := cm_clients m @ [length (cm_objects m)]\<rparr>"
    using None by (simp add: ClientManager_subscribe_def on_client_def Let_def)
  have "serves L ?c" by (simp add: serves_def)
  moreover have "\<not> matches H ((cm_objects m @ [?c]) ! j) ((cm_objects m @ [?c]) ! i)"
    if "i < j" "j \<le> length (cm_objects m)" for i j
    using that assms set_find_new [OF assms None] by (cases "j = length (cm_objects m)") (simp_all add: nth_append subscribed_def)
  ultimately show ?thesis
    using assms unfolding m by (simp add: subscribed_def less_Suc_eq_le)
next
  case (Some a)
  note a = set_find_old [OF assms Some]
  let ?c = "Client_subscribe f (cm_objects m ! a)"
  have m: "ClientManager_subscribe L H f m = m\<lparr>cm_objects := (cm_objects m)[a := ?c]\<rparr>"
    using Some by (simp add: ClientManager_subscribe_def on_client_def Let_def)
  have "get_endpoint L (snd f) = cl_endpoint (cm_objects m ! a)"
    using equals_endpoint [of "createClientFor L f"] a(2) by (simp add: matches_def)
  then have "serves L ?c" using assms a(1) nth_mem by (fastforce simp: subscribed_def serves_def)
  moreover have "mset (concat (map cl_feeds ((cm_objects m)[a := ?c]))) = mset (fs @ [f])"
    using mset_concat_update [OF a(1), of cl_feeds ?c] assms by (simp add: subscribed_def)
  moreover have "\<not> matches H ((cm_objects m)[a := ?c] ! j) ((cm_objects m)[a := ?c] ! i)"
    if "i < j" "j < length (cm_objects m)" for i j
    using that assms a(1) by (cases "i = a"; cases "j = a") (auto simp: subscribed_def)
  ultimately show ?thesis
    using assms set_update_subset_insert [of "cm_objects m" a ?c] unfolding m by (auto simp: subscribed_def)
qed

lemma subscribe_all_keeps:
  "subscribed L H gs m \<Longrightarrow> subscribed L H (gs @ fs) (subscribe_all L H fs m)"
proof (induction fs arbitrary: gs m)
  case (Cons f fs)
  then show ?case using Cons.IH [OF subscribe_keeps [OF Cons.prems]] by simp
qed simp

lemma subscribed_all: "subscribed L H fs (subscribe_all L H fs ClientManager_new)"
  using subscribe_all_keeps [of L H "[]" ClientManager_new fs] by (simp add: subscribed_def ClientManager_new_def)

text \<open>Two feeds of one endpoint, for examples, and a hash function.\<close>

definition sample_feed :: "feed_class \<Rightarrow> string \<Rightarrow> (string \<times> string) list feed" where
  "sample_feed k pt =
     \<lparr>f_class = k, f_name = ''f'', f_properties = [(KV_KEY_HOST, ''h''), (KV_KEY_PORT, pt)], f_priority = Some 0\<rparr>"

definition sample_hash :: hash_lib where
  "sample_hash = \<lparr>hash_value = (\<lambda>s. of_nat (length s)), hash_combine = (\<lambda>a b. 31 * a + b)\<rparr>"

lemma sample_feed_simps:
  "get_protocol (sample_feed k pt) = class_protocol k"
  "pt \<noteq> [] \<Longrightarrow> get_endpoint sample_lib (sample_feed k pt) = \<lparr>host = ''h'', port = pt\<rparr>"
  by (simp_all add: sample_feed_def get_protocol_def get_endpoint_def get_property_def sample_lib_def
      KV_KEY_HOST_def KV_KEY_PORT_def)

lemmas sample_subscription =
  sample_feed_simps ClientManager_subscribe_def createClientFor_def set_find_def on_client_def ClientManager_new_def
  client_hash_def client_equals_defs base_hash_def Client_new_def Client_subscribe_def

text \<open>
  C15: Subscribing puts every feed at exactly one client, counted with its multiplicity, and each client only has feeds of its own endpoint.
\<close>

theorem subscribe_all_partition:
  "mset (concat (map cl_feeds (cm_objects (subscribe_all L H fs ClientManager_new)))) = mset fs \<and>
   (\<forall>c f. c \<in> set (cm_objects (subscribe_all L H fs ClientManager_new)) \<and> f \<in> set (cl_feeds c) \<longrightarrow>
      get_endpoint L (snd f) = cl_endpoint c)"
  using subscribed_all [of L H fs] unfolding subscribed_def serves_def by blast

theorem subscribe_all_partition_witness:
  "get_endpoint sample_lib (sample_feed SbsFeed ''1'') =
     cl_endpoint (cm_objects (subscribe_all sample_lib sample_hash [(0, sample_feed SbsFeed ''1'')] ClientManager_new) ! 0)"
proof -
  let ?o = "cm_objects (subscribe_all sample_lib sample_hash [(0, sample_feed SbsFeed ''1'')] ClientManager_new)"
  have "?o ! 0 \<in> set ?o" "(0, sample_feed SbsFeed ''1'') \<in> set (cl_feeds (?o ! 0))"
    by (simp_all add: sample_subscription)
  then show ?thesis
    using conjunct2 [OF subscribe_all_partition [of sample_lib sample_hash "[(0, sample_feed SbsFeed ''1'')]"]]
    by (metis snd_conv)
qed

text \<open>
  Feeds of the same type with the same host and port share one connection: among the clients there are no two of the same class (and login)
  with the same endpoint, whatever the hash function is.
\<close>

lemma clients_not_duplicated:
  assumes "i < j" "j < length (cm_objects (subscribe_all L H fs ClientManager_new))"
    and "cl_class (cm_objects (subscribe_all L H fs ClientManager_new) ! i) =
         cl_class (cm_objects (subscribe_all L H fs ClientManager_new) ! j)"
  shows "cl_endpoint (cm_objects (subscribe_all L H fs ClientManager_new) ! i) \<noteq>
         cl_endpoint (cm_objects (subscribe_all L H fs ClientManager_new) ! j)"
proof
  let ?o = "cm_objects (subscribe_all L H fs ClientManager_new)"
  assume "cl_endpoint (?o ! i) = cl_endpoint (?o ! j)"
  then have "matches H (?o ! j) (?o ! i)" using assms(3) by (simp add: same_class_matches)
  then show False using subscribed_all [of L H fs] assms(1, 2) by (auto simp: subscribed_def)
qed

lemma clients_not_duplicated_sample:
  "let m = subscribe_all sample_lib sample_hash
     [(0, sample_feed SbsFeed ''1''), (1, sample_feed SbsFeed ''2'')] ClientManager_new
   in length (cm_objects m) = 2 \<and> cl_endpoint (cm_objects m ! 0) \<noteq> cl_endpoint (cm_objects m ! 1)"
  using clients_not_duplicated [of 0 1 sample_lib sample_hash "[(0, sample_feed SbsFeed ''1''), (1, sample_feed SbsFeed ''2'')]"]
  by (simp add: sample_subscription Let_def)

fun client_protocol :: "client_class \<Rightarrow> protocol" where
  "client_protocol (AprscClient _) = APRS"
| "client_protocol SbsClient = SBS"
| "client_protocol GpsdClient = GPS"
| "client_protocol SensorClient = SENSOR"

lemma created_protocol: "client_protocol (cl_class (createClientFor L f)) = get_protocol (snd f)"
  by (simp add: createClientFor_def Client_new_def AprscClient_new_def split: protocol.split)

text \<open>
  C36: If feeds with the same endpoint have the same protocol, every client speaks the protocol of all its feeds.
\<close>

theorem clients_speak_protocol:
  assumes "\<forall>f \<in> set fs. \<forall>g \<in> set fs. get_endpoint L (snd f) = get_endpoint L (snd g) \<longrightarrow>
      get_protocol (snd f) = get_protocol (snd g)"
    and "c \<in> set (cm_objects (subscribe_all L H fs ClientManager_new))" "f \<in> set (cl_feeds c)"
  shows "client_protocol (cl_class c) = get_protocol (snd f)"
proof -
  have "set (concat (map cl_feeds (cm_objects (subscribe_all L H fs ClientManager_new)))) = set fs"
    using subscribed_all [of L H fs] unfolding subscribed_def by (metis mset_eq_setD)
  then have sub: "set (cl_feeds c) \<subseteq> set fs" using assms(2) by auto
  have "serves L c" using subscribed_all [of L H fs] assms(2) by (auto simp: subscribed_def)
  then obtain g where g: "g \<in> set (cl_feeds c)" "cl_class c = cl_class (createClientFor L g)"
      "get_endpoint L (snd g) = get_endpoint L (snd f)" using assms(3) by (auto simp: serves_def)
  then show ?thesis using assms(1, 3) sub created_protocol [of L g] by auto
qed

theorem clients_speak_protocol_witness:
  "client_protocol (cl_class (cm_objects
     (subscribe_all sample_lib sample_hash [(0, sample_feed GpsFeed ''1'')] ClientManager_new) ! 0)) = GPS"
proof -
  let ?f = "(0 :: nat, sample_feed GpsFeed ''1'')"
  let ?o = "cm_objects (subscribe_all sample_lib sample_hash [?f] ClientManager_new)"
  have "?o ! 0 \<in> set ?o" "?f \<in> set (cl_feeds (?o ! 0))" by (simp_all add: sample_subscription)
  then have "client_protocol (cl_class (?o ! 0)) = get_protocol (snd ?f)"
    by (intro clients_speak_protocol [where fs = "[?f]"]) simp_all
  then show ?thesis by (simp add: sample_feed_simps)
qed

text \<open>
  The type of a client is not part of its identity: a GPS feed configured on the host and port of an SBS feed is attached to the
  SBS client, which never sends the request a GPS server waits for.
\<close>

lemma gps_feed_on_sbs_client:
  assumes "get_protocol (snd f) = SBS" "get_protocol (snd g) = GPS" "get_endpoint L (snd g) = get_endpoint L (snd f)"
  shows "cm_objects (subscribe_all L H [f, g] ClientManager_new) =
    [(Client_new SbsClient (get_endpoint L (snd f)))\<lparr>cl_feeds := [f, g]\<rparr>]"
  using assms
  by (simp add: ClientManager_subscribe_def createClientFor_def set_find_def on_client_def ClientManager_new_def
      client_hash_def client_equals_defs base_hash_def Client_new_def Client_subscribe_def Let_def)

lemma gps_feed_on_sbs_client_sample:
  "map cl_class (cm_objects (subscribe_all sample_lib sample_hash
     [(0, sample_feed SbsFeed ''1''), (1, sample_feed GpsFeed ''1'')] ClientManager_new)) = [SbsClient]"
  using gps_feed_on_sbs_client [of "(0, sample_feed SbsFeed ''1'')" "(1, sample_feed GpsFeed ''1'')" sample_lib sample_hash]
  by (simp add: sample_feed_simps Client_new_def)

section \<open>Stopping\<close>

lemma stop_objects:
  assumes "distinct as" "\<forall>a \<in> set as. a < length (cm_objects m)" "b < length (cm_objects m)"
  shows "cm_objects (fold (\<lambda>a. on_client a g) as m) ! b =
    (if b \<in> set as then g (cm_objects m ! b) else cm_objects m ! b)"
  using assms
proof (induction as arbitrary: m)
  case (Cons a as)
  then show ?case using Cons.IH [of "on_client a g m"] by (auto simp: on_client_def nth_list_update)
qed simp

text \<open>
  Stopping the manager stops every client of the set that has been started: its event loop ends and it never gets
  back to running.
\<close>

lemma ClientManager_stop_all:
  assumes "distinct (cm_clients m)" "\<forall>a \<in> set (cm_clients m). a < length (cm_objects m) \<and> cl_inv (cm_objects m ! a)"
    and "a \<in> set (cm_clients m)" "cl_state (cm_objects m ! a) \<in> {CONNECTING, RUNNING}"
    and "(cl_step proc)\<^sup>*\<^sup>* (cm_objects (ClientManager_stop m) ! a) c"
  shows "co_stopped (cl_connector c) \<and> cl_state c \<noteq> RUNNING"
proof -
  let ?c = "cm_objects (ClientManager_stop m) ! a"
  have "?c = scheduleStop (cm_objects m ! a)"
    using stop_objects [of "cm_clients m" m a scheduleStop] assms(1, 2, 3) by (simp add: ClientManager_stop_def)
  then have "cl_inv ?c" "co_stopped (cl_connector ?c)"
    using Client_stop_stops [of "cm_objects m ! a"] well_phase assms(2, 3, 4) by (auto simp: scheduleStop_def)
  then show ?thesis using stopped_run [OF assms(5)] by (auto simp: cl_inv_def)
qed

text \<open>
  A client whose thread has not yet called \<open>run\<close> is not stopped: \<open>scheduleStop\<close> waits a moment for it, but then does nothing.
\<close>

lemma stop_before_run_is_lost: "cl_state c = NONE \<Longrightarrow> Client_run (scheduleStop c) = Client_run c"
  by (simp add: scheduleStop_def)

end
