(* ===== verification/Server.thy ===== *)
theory Server
  imports VFRB_Prelude
begin

text \<open>
  \<open>include/server\<close> and \<open>src/server\<close>: the TCP server that hands the same text to at most
  \<open>S_MAX_CLIENTS\<close> clients. What the network library answers is a parameter: the result of
  \<open>remote_endpoint()\<close>, the success of a write, and the moments at which an accept completes.
  A throw that leaves a \<open>noexcept\<close> function ends the program; that is the value \<open>None\<close>.
\<close>

section \<open>Sockets and connections\<close>

text \<open>\<open>sock_id\<close> stands for the descriptor; the socket a move leaves behind is closed.\<close>

record socket =
  sock_id :: nat
  sock_open :: bool

definition socket_closed :: socket where
  "socket_closed = \<lparr>sock_id = 0, sock_open = False\<rparr>"

text \<open>\<open>remote_endpoint()\<close> throws when the peer is gone (\<open>None\<close>).\<close>

type_synonym peer = "string option"

definition Socket_get_address :: "peer \<Rightarrow> socket \<Rightarrow> string outcome" where
  "Socket_get_address peer s =
     (if \<not> sock_open s then Throw SocketException
      else (case peer of None \<Rightarrow> Throw System_error | Some a \<Rightarrow> Ret a))"

definition Socket_write :: "(nat \<Rightarrow> string \<Rightarrow> bool) \<Rightarrow> string \<Rightarrow> socket \<Rightarrow> bool outcome" where
  "Socket_write wr msg s =
     (if \<not> sock_open s then Throw SocketException else Ret (wr (sock_id s) msg))"

definition Socket_close :: "socket \<Rightarrow> socket" where
  "Socket_close s = s\<lparr>sock_open := False\<rparr>"

record connection =
  cn_socket :: socket
  cn_address :: string

definition Connection_create :: "peer \<Rightarrow> socket \<Rightarrow> connection outcome" where
  "Connection_create peer s =
     omap (\<lambda>a. \<lparr>cn_socket = s, cn_address = a\<rparr>) (Socket_get_address peer s)"

text \<open>The handler for \<open>SocketException\<close>, the only exception of \<open>write\<close>, returns false.\<close>

definition Connection_write :: "(nat \<Rightarrow> string \<Rightarrow> bool) \<Rightarrow> string \<Rightarrow> connection \<Rightarrow> bool outcome" where
  "Connection_write wr msg c =
     ocatch (\<lambda>e. e = SocketException) (Socket_write wr msg (cn_socket c)) (Ret False)"

section \<open>The network interface\<close>

text \<open>\<open>ni_accepting\<close>: an asynchronous accept is under way.\<close>

record netInterface =
  ni_socket :: socket
  ni_acceptorOpen :: bool
  ni_accepting :: bool

definition NI_new :: netInterface where
  "NI_new = \<lparr>ni_socket = socket_closed, ni_acceptorOpen = True, ni_accepting = False\<rparr>"

definition NI_close :: "netInterface \<Rightarrow> netInterface" where
  "NI_close n = n\<lparr>ni_socket := Socket_close (ni_socket n)\<rparr>"

definition NI_stop :: "netInterface \<Rightarrow> netInterface" where
  "NI_stop n = NI_close (n\<lparr>ni_acceptorOpen := False\<rparr>)"

definition NI_onAccept :: "netInterface \<Rightarrow> netInterface" where
  "NI_onAccept n = (if ni_acceptorOpen n then n\<lparr>ni_accepting := True\<rparr> else n)"

text \<open>
  The socket is moved into the new connection before that asks for the address, so it is gone from
  the interface even if the constructor throws.
\<close>

definition NI_startConnection :: "peer \<Rightarrow> netInterface \<Rightarrow> connection outcome \<times> netInterface" where
  "NI_startConnection peer n =
     (if \<not> sock_open (ni_socket n) then (Throw SocketException, n)
      else (Connection_create peer (ni_socket n), n\<lparr>ni_socket := socket_closed\<rparr>))"

definition NI_get_currentAddress :: "peer \<Rightarrow> netInterface \<Rightarrow> string outcome" where
  "NI_get_currentAddress peer n = Socket_get_address peer (ni_socket n)"

section \<open>The server\<close>

definition S_MAX_CLIENTS :: nat where "S_MAX_CLIENTS = 3"

record server =
  srv_net :: netInterface
  srv_connections :: "connection option list"
  srv_activeConnections :: uint8
  srv_running :: bool

definition Server_new :: server where
  "Server_new = \<lparr>srv_net = NI_new, srv_connections = replicate S_MAX_CLIENTS None,
                 srv_activeConnections = 0, srv_running = False\<rparr>"

definition Server_accept :: "server \<Rightarrow> server" where
  "Server_accept s = s\<lparr>srv_net := NI_onAccept (srv_net s)\<rparr>"

text \<open>\<open>run\<close> starts a thread whose first action is \<open>accept\<close>.\<close>

definition Server_run :: "server \<Rightarrow> server" where
  "Server_run s = Server_accept (s\<lparr>srv_running := True\<rparr>)"

definition Server_stop :: "server \<Rightarrow> server" where
  "Server_stop s =
     (if srv_running s then
        s\<lparr>srv_running := False, srv_connections := map (\<lambda>_. None) (srv_connections s),
          srv_activeConnections := 0, srv_net := NI_stop (srv_net s)\<rparr>
      else s)"

text \<open>The loop of \<open>send\<close>; it also returns the descriptors that were written to, in order.\<close>

fun send_loop ::
  "(nat \<Rightarrow> string \<Rightarrow> bool) \<Rightarrow> string \<Rightarrow> connection option list \<Rightarrow> uint8 \<Rightarrow>
     connection option list \<times> uint8 \<times> nat list" where
  "send_loop wr msg [] n = ([], n, [])"
| "send_loop wr msg (None # cs) n =
     (let (ds, m, ws) = send_loop wr msg cs n in (None # ds, m, ws))"
| "send_loop wr msg (Some c # cs) n =
     (if Connection_write wr msg c = Ret True
      then let (ds, m, ws) = send_loop wr msg cs n in (Some c # ds, m, sock_id (cn_socket c) # ws)
      else let (ds, m, ws) = send_loop wr msg cs (n - 1) in (None # ds, m, ws))"

definition Server_send ::
  "(nat \<Rightarrow> string \<Rightarrow> bool) \<Rightarrow> string \<Rightarrow> server \<Rightarrow> server \<times> nat list" where
  "Server_send wr msg s =
     (if msg = [] \<or> srv_activeConnections s = 0 then (s, [])
      else let (cs, n, ws) = send_loop wr msg (srv_connections s) (srv_activeConnections s)
           in (s\<lparr>srv_connections := cs, srv_activeConnections := n\<rparr>, ws))"

fun isConnected :: "string \<Rightarrow> connection option list \<Rightarrow> bool" where
  "isConnected a [] = False"
| "isConnected a (None # cs) = isConnected a cs"
| "isConnected a (Some c # cs) = (cn_address c = a \<or> isConnected a cs)"

fun first_free :: "'a option list \<Rightarrow> nat option" where
  "first_free [] = None"
| "first_free (None # cs) = Some 0"
| "first_free (Some _ # cs) = map_option Suc (first_free cs)"

text \<open>
  The \<open>try\<close> block of \<open>attemptConnection\<close>. \<open>peer\<close> answers the first call of \<open>remote_endpoint()\<close>,
  \<open>peer'\<close> the one in \<open>startConnection\<close> or in the message about a refusal.
\<close>

definition refuse :: "peer \<Rightarrow> server \<Rightarrow> unit outcome \<times> server" where
  "refuse peer' s =
     (case NI_get_currentAddress peer' (srv_net s) of
        Ret _ \<Rightarrow> (Ret (), s\<lparr>srv_net := NI_close (srv_net s)\<rparr>)
      | Throw e \<Rightarrow> (Throw e, s)
      | UB \<Rightarrow> (UB, s))"

definition admit :: "peer \<Rightarrow> server \<Rightarrow> unit outcome \<times> server" where
  "admit peer' s =
     (case first_free (srv_connections s) of
        None \<Rightarrow> (Ret (), s)
      | Some i \<Rightarrow>
          (case NI_startConnection peer' (srv_net s) of
             (Ret c, n) \<Rightarrow>
               (Ret (), s\<lparr>srv_net := n, srv_connections := (srv_connections s)[i := Some c],
                          srv_activeConnections := srv_activeConnections s + 1\<rparr>)
           | (Throw e, n) \<Rightarrow> (Throw e, s\<lparr>srv_net := n\<rparr>)
           | (UB, n) \<Rightarrow> (UB, s\<lparr>srv_net := n\<rparr>)))"

definition attempt :: "peer \<Rightarrow> peer \<Rightarrow> server \<Rightarrow> unit outcome \<times> server" where
  "attempt peer peer' s =
     (if unat (srv_activeConnections s) < S_MAX_CLIENTS then
        (case NI_get_currentAddress peer (srv_net s) of
           Ret a \<Rightarrow> if \<not> isConnected a (srv_connections s) then admit peer' s else refuse peer' s
         | Throw e \<Rightarrow> (Throw e, s)
         | UB \<Rightarrow> (UB, s))
      else refuse peer' s)"

text \<open>The handler catches \<open>SocketException\<close> only, and the function is \<open>noexcept\<close>.\<close>

definition attemptConnection :: "peer \<Rightarrow> peer \<Rightarrow> bool \<Rightarrow> server \<Rightarrow> server option" where
  "attemptConnection peer peer' error s =
     (if error then Some (Server_accept s)
      else (case attempt peer peer' s of
              (Ret _, s1) \<Rightarrow> Some (Server_accept s1)
            | (Throw SocketException, s1) \<Rightarrow>
                Some (Server_accept (s1\<lparr>srv_net := NI_close (srv_net s1)\<rparr>))
            | _ \<Rightarrow> None))"

section \<open>The running server\<close>

text \<open>
  The threads take turns at the mutex, so a run is a sequence of steps: the network library completes
  the accept (with a new socket, or with an error) and queues the handler, the handler runs, the main
  thread sends or stops. The second component is the queued handler's error flag. A peer's address does not
  change while the socket is connected, so when both calls answer, they give the same address.
\<close>

definition stable :: "peer \<Rightarrow> peer \<Rightarrow> bool" where
  "stable peer peer' \<longleftrightarrow> peer = None \<or> peer' = None \<or> peer = peer'"

inductive srv_step :: "server \<times> bool option \<Rightarrow> server \<times> bool option \<Rightarrow> bool" where
  accepted: "ni_accepting (srv_net s) \<Longrightarrow> ni_acceptorOpen (srv_net s) \<Longrightarrow>
     srv_step (s, None)
       (s\<lparr>srv_net := (srv_net s)\<lparr>ni_socket := \<lparr>sock_id = n, sock_open = True\<rparr>, ni_accepting := False\<rparr>\<rparr>,
        Some False)"
| failed: "ni_accepting (srv_net s) \<Longrightarrow>
     srv_step (s, None) (s\<lparr>srv_net := (srv_net s)\<lparr>ni_accepting := False\<rparr>\<rparr>, Some True)"
| handled: "stable peer peer' \<Longrightarrow> attemptConnection peer peer' error s = Some s' \<Longrightarrow>
     srv_step (s, Some error) (s', None)"
| sent: "srv_step (s, h) (fst (Server_send wr msg s), h)"
| stopped: "srv_step (s, h) (Server_stop s, h)"

inductive srv_reach :: "server \<times> bool option \<Rightarrow> bool" where
  start: "srv_reach (Server_run Server_new, None)"
| step: "srv_reach c \<Longrightarrow> srv_step c c' \<Longrightarrow> srv_reach c'"

section \<open>Slots\<close>

fun present :: "'a option list \<Rightarrow> 'a list" where
  "present [] = []"
| "present (None # cs) = present cs"
| "present (Some c # cs) = c # present cs"

lemma present_replicate [simp]: "present (replicate n None) = []"
  by (induction n) simp_all

lemma present_map_None [simp]: "present (map (\<lambda>_. None) cs) = []"
  by (induction cs) simp_all

lemma length_present: "length (present cs) \<le> length cs"
  by (induction cs rule: present.induct) simp_all

lemma isConnected_iff: "isConnected a cs \<longleftrightarrow> a \<in> cn_address ` set (present cs)"
  by (induction a cs rule: isConnected.induct) auto

lemma first_free_None: "first_free cs = None \<longleftrightarrow> length (present cs) = length cs"
proof (induction cs rule: present.induct)
  case (2 cs)
  then show ?case using length_present [of cs] by simp
qed simp_all

lemma present_fill:
  assumes "first_free cs = Some i"
  shows "length (present (cs[i := Some c])) = Suc (length (present cs))"
    and "set (present (cs[i := Some c])) = insert c (set (present cs))"
    and "distinct (map f (present (cs[i := Some c]))) \<longleftrightarrow>
      f c \<notin> f ` set (present cs) \<and> distinct (map f (present cs))"
  using assms by (induction cs arbitrary: i rule: present.induct) auto

text \<open>What a send leaves of a slot: the connection, if it could be written to.\<close>

definition keep :: "(nat \<Rightarrow> string \<Rightarrow> bool) \<Rightarrow> string \<Rightarrow> connection option \<Rightarrow> connection option" where
  "keep wr msg c =
     (case c of None \<Rightarrow> None | Some c \<Rightarrow> if wr (sock_id (cn_socket c)) msg then Some c else None)"

lemma Connection_write_iff:
  "Connection_write wr msg c = Ret True \<longleftrightarrow> sock_open (cn_socket c) \<and> wr (sock_id (cn_socket c)) msg"
  by (simp add: Connection_write_def Socket_write_def)

lemma present_keep: "present (map (keep wr msg) cs) = filter (\<lambda>c. wr (sock_id (cn_socket c)) msg) (present cs)"
  by (induction cs rule: present.induct) (simp_all add: keep_def)

lemma map_keep_none: "present cs = [] \<Longrightarrow> map (keep wr msg) cs = cs"
  by (induction cs rule: present.induct) (simp_all add: keep_def)

lemma send_loop_eq:
  assumes "\<forall>c \<in> set (present cs). sock_open (cn_socket c)"
  shows "send_loop wr msg cs n =
    (map (keep wr msg) cs,
     n - of_nat (length (filter (\<lambda>c. \<not> wr (sock_id (cn_socket c)) msg) (present cs))),
     map (sock_id \<circ> cn_socket) (filter (\<lambda>c. wr (sock_id (cn_socket c)) msg) (present cs)))"
  using assms
  by (induction wr msg cs n rule: send_loop.induct) (simp_all add: keep_def Connection_write_iff)

section \<open>The invariant\<close>

definition srv_inv :: "server \<times> bool option \<Rightarrow> bool" where
  "srv_inv c =
     (case c of (s, h) \<Rightarrow>
        length (srv_connections s) = S_MAX_CLIENTS \<and>
        unat (srv_activeConnections s) = length (present (srv_connections s)) \<and>
        distinct (map cn_address (present (srv_connections s))) \<and>
        (\<forall>k \<in> set (present (srv_connections s)). sock_open (cn_socket k)) \<and>
        (ni_accepting (srv_net s) \<longrightarrow> h = None) \<and>
        (h \<noteq> Some False \<longrightarrow> \<not> sock_open (ni_socket (srv_net s))) \<and>
        (\<not> srv_running s \<longrightarrow> present (srv_connections s) = [] \<and>
           \<not> ni_acceptorOpen (srv_net s) \<and> \<not> sock_open (ni_socket (srv_net s))))"

lemmas net_defs = NI_close_def NI_stop_def NI_onAccept_def NI_startConnection_def
  NI_get_currentAddress_def Socket_close_def Socket_get_address_def Connection_create_def
  socket_closed_def

lemma srv_inv_start: "srv_inv (Server_run Server_new, None)"
  by (simp add: srv_inv_def Server_run_def Server_new_def Server_accept_def NI_new_def net_defs)

lemma srv_inv_stop: "srv_inv (s, h) \<Longrightarrow> srv_inv (Server_stop s, h)"
  by (auto simp: srv_inv_def Server_stop_def net_defs)

lemma server_send_eq:
  assumes "srv_inv (s, h)"
  shows "Server_send wr msg s =
    (if msg = [] then (s, [])
     else let ok = filter (\<lambda>c. wr (sock_id (cn_socket c)) msg) (present (srv_connections s))
          in (s\<lparr>srv_connections := map (keep wr msg) (srv_connections s),
                srv_activeConnections := of_nat (length ok)\<rparr>, map (sock_id \<circ> cn_socket) ok))"
proof -
  let ?cs = "srv_connections s"
  let ?ok = "\<lambda>c. wr (sock_id (cn_socket c)) msg"
  have inv: "unat (srv_activeConnections s) = length (present ?cs)"
    "\<forall>k \<in> set (present ?cs). sock_open (cn_socket k)"
    using assms by (simp_all add: srv_inv_def)
  have n: "srv_activeConnections s = of_nat (length (present ?cs))"
    using arg_cong [OF inv(1), of "of_nat :: nat \<Rightarrow> uint8"] by simp
  have "length (filter ?ok (present ?cs)) + length (filter (\<lambda>c. \<not> ?ok c) (present ?cs)) = length (present ?cs)"
    by (rule sum_length_filter_compl)
  then have count: "srv_activeConnections s - of_nat (length (filter (\<lambda>c. \<not> ?ok c) (present ?cs))) =
      of_nat (length (filter ?ok (present ?cs)))"
    unfolding n by (simp flip: of_nat_add add: algebra_simps)
  show ?thesis
  proof (cases "srv_activeConnections s = 0")
    case True
    then have "present ?cs = []" using inv(1) by simp
    then show ?thesis using True by (simp add: Server_send_def map_keep_none)
  next
    case False
    then show ?thesis using send_loop_eq [OF inv(2), of wr msg] count by (simp add: Server_send_def Let_def)
  qed
qed

lemma srv_inv_send:
  assumes "srv_inv (s, h)"
  shows "srv_inv (fst (Server_send wr msg s), h)"
proof -
  let ?cs = "srv_connections s"
  have "length (filter P (present ?cs)) < 256" for P
    using length_present [of ?cs] assms
    by (intro le_less_trans [OF length_filter_le]) (simp add: srv_inv_def S_MAX_CLIENTS_def)
  then show ?thesis
    using assms unfolding server_send_eq [OF assms]
    by (auto simp: srv_inv_def present_keep distinct_map_filter unat_of_nat Let_def)
qed

text \<open>The two ways a handler that returns changes the state.\<close>

definition closed_again :: "server \<Rightarrow> server" where
  "closed_again s = s\<lparr>srv_net := NI_onAccept (NI_close (srv_net s))\<rparr>"

definition admitted :: "string \<Rightarrow> server \<Rightarrow> server" where
  "admitted a s =
     s\<lparr>srv_net := NI_onAccept ((srv_net s)\<lparr>ni_socket := socket_closed\<rparr>),
       srv_connections := (srv_connections s)[the (first_free (srv_connections s)) :=
         Some \<lparr>cn_socket = ni_socket (srv_net s), cn_address = a\<rparr>],
       srv_activeConnections := srv_activeConnections s + 1\<rparr>"

lemma free_slot:
  assumes "srv_inv (s, h)" "unat (srv_activeConnections s) < S_MAX_CLIENTS"
  obtains i where "first_free (srv_connections s) = Some i"
  using assms first_free_None [of "srv_connections s"] by (auto simp: srv_inv_def)

lemma refuse_eq:
  "sock_open (ni_socket (srv_net s)) \<Longrightarrow>
     refuse peer' s = (case peer' of
       None \<Rightarrow> (Throw System_error, s) | Some _ \<Rightarrow> (Ret (), s\<lparr>srv_net := NI_close (srv_net s)\<rparr>))"
  by (simp add: refuse_def net_defs split: option.split)

lemma admit_eq:
  "sock_open (ni_socket (srv_net s)) \<Longrightarrow> first_free (srv_connections s) = Some i \<Longrightarrow>
     Server_accept (snd (admit (Some a) s)) = admitted a s \<and> fst (admit (Some a) s) = Ret () \<and>
     fst (admit None s) = Throw System_error"
  by (simp add: admit_def net_defs admitted_def Server_accept_def)

lemma attemptConnection_closed:
  assumes "\<not> sock_open (ni_socket (srv_net s))"
  shows "attemptConnection peer peer' False s = Some (closed_again s)"
  using assms
  by (simp add: attemptConnection_def attempt_def refuse_def closed_again_def Server_accept_def
      NI_get_currentAddress_def Socket_get_address_def)

lemma attemptConnection_open:
  assumes "srv_inv (s, Some False)" "sock_open (ni_socket (srv_net s))"
  shows "attemptConnection peer peer' False s =
    (if unat (srv_activeConnections s) < S_MAX_CLIENTS then
       (case (peer, peer') of
          (Some a, Some b) \<Rightarrow> Some (if isConnected a (srv_connections s) then closed_again s else admitted b s)
        | _ \<Rightarrow> None)
     else (case peer' of None \<Rightarrow> None | Some _ \<Rightarrow> Some (closed_again s)))"
proof (cases "unat (srv_activeConnections s) < S_MAX_CLIENTS")
  case False
  then show ?thesis
    using assms(2) by (cases peer') (simp_all add: attemptConnection_def attempt_def refuse_eq closed_again_def Server_accept_def)
next
  case True
  obtain i where i: "first_free (srv_connections s) = Some i" using assms(1) True by (rule free_slot)
  have addr: "NI_get_currentAddress p (srv_net s) = (case p of None \<Rightarrow> Throw System_error | Some a \<Rightarrow> Ret a)" for p
    using assms(2) by (simp add: NI_get_currentAddress_def Socket_get_address_def)
  show ?thesis
  proof (cases "peer \<noteq> None \<and> \<not> isConnected (the peer) (srv_connections s)")
    case adm: True
    then have "attempt peer peer' s = admit peer' s" using True addr by (auto simp: attempt_def)
    with adm True show ?thesis
      using admit_eq [OF assms(2) i, of "the peer'"] by (cases peer'; cases "admit peer' s") (auto simp: attemptConnection_def)
  next
    case False
    then show ?thesis
      using True addr assms(2)
      by (cases peer; cases peer') (auto simp: attemptConnection_def attempt_def refuse_eq closed_again_def Server_accept_def)
  qed
qed

lemma srv_inv_closed_again: "srv_inv (s, h) \<Longrightarrow> h \<noteq> None \<Longrightarrow> srv_inv (closed_again s, None)"
  by (simp add: srv_inv_def closed_again_def net_defs)

lemma srv_inv_admitted:
  assumes "srv_inv (s, Some False)" "sock_open (ni_socket (srv_net s))"
    and "unat (srv_activeConnections s) < S_MAX_CLIENTS" "\<not> isConnected a (srv_connections s)"
  shows "srv_inv (admitted a s, None)"
proof -
  obtain i where i: "first_free (srv_connections s) = Some i" using assms(1, 3) by (rule free_slot)
  have "unat (srv_activeConnections s + 1) = Suc (unat (srv_activeConnections s))"
    using assms(3) by (simp add: unat_word_ariths S_MAX_CLIENTS_def)
  then show ?thesis
    using assms present_fill(1, 2) [OF i] present_fill(3) [OF i, of cn_address] i by (simp add: srv_inv_def admitted_def isConnected_iff net_defs)
qed

lemma srv_inv_handle:
  assumes "srv_inv (s, Some error)" "stable peer peer'" "attemptConnection peer peer' error s = Some s'"
  shows "srv_inv (s', None)"
proof (cases error)
  case True
  then show ?thesis
    using assms by (auto simp: attemptConnection_def srv_inv_def Server_accept_def NI_onAccept_def split: if_splits)
next
  case False
  then have e: "error = False" by simp
  note inv = assms(1) [unfolded e] and eq = assms(3) [unfolded e]
  show ?thesis
  proof (cases "sock_open (ni_socket (srv_net s))")
    case True
    with inv eq assms(2) srv_inv_closed_again [OF inv] show ?thesis
      by (auto simp: attemptConnection_open stable_def srv_inv_admitted
          split: if_splits option.splits)
  next
    case False
    with eq inv show ?thesis using srv_inv_closed_again [OF inv] by (simp add: attemptConnection_closed)
  qed
qed

lemma srv_inv_step: "srv_step c c' \<Longrightarrow> srv_inv c \<Longrightarrow> srv_inv c'"
proof (induction rule: srv_step.induct)
  case (handled peer peer' error s s')
  then show ?case using srv_inv_handle by blast
qed (auto intro: srv_inv_send srv_inv_stop, auto simp: srv_inv_def)

lemma srv_reach_inv: "srv_reach c \<Longrightarrow> srv_inv c"
  by (induction rule: srv_reach.induct) (auto intro: srv_inv_start srv_inv_step)

text \<open>No step starts a stopped server again.\<close>

lemma attemptConnection_running:
  assumes "srv_inv (s, Some error)" "attemptConnection peer peer' error s = Some s'"
  shows "srv_running s' = srv_running s"
proof (cases error)
  case True
  then show ?thesis using assms(2) by (auto simp: attemptConnection_def Server_accept_def)
next
  case False
  then have e: "error = False" by simp
  show ?thesis
    using assms unfolding e
    by (cases "sock_open (ni_socket (srv_net s))")
       (auto simp: attemptConnection_open attemptConnection_closed closed_again_def admitted_def
         split: if_splits option.splits)
qed

lemma srv_step_running: "srv_step c c' \<Longrightarrow> srv_reach c \<Longrightarrow> \<not> srv_running (fst c) \<Longrightarrow> \<not> srv_running (fst c')"
proof (induction rule: srv_step.induct)
  case (handled peer peer' error s s')
  then show ?case using attemptConnection_running srv_reach_inv by fastforce
qed (auto simp: Server_send_def Server_stop_def split: prod.split)

section \<open>Properties\<close>

text \<open>
  C11: in every state of the running server the counter of active connections is the number of
  occupied slots, at most three, no two connections are to the same address, and all are open.
\<close>

theorem server_slots:
  assumes "srv_reach (s, h)"
  shows "unat (srv_activeConnections s) = length (present (srv_connections s)) \<and>
    length (present (srv_connections s)) \<le> 3 \<and> distinct (map cn_address (present (srv_connections s))) \<and>
    list_all (\<lambda>c. sock_open (cn_socket c)) (present (srv_connections s))"
  using srv_reach_inv [OF assms] length_present [of "srv_connections s"]
  by (simp add: srv_inv_def S_MAX_CLIENTS_def list_all_iff)

text \<open>A server with one client, and the same server when the next accept has completed.\<close>

definition sample_server :: server where
  "sample_server =
     (let s = Server_run Server_new
      in the (attemptConnection (Some ''10.0.0.1'') (Some ''10.0.0.1'') False
           (s\<lparr>srv_net := (srv_net s)\<lparr>ni_socket := \<lparr>sock_id = 5, sock_open = True\<rparr>, ni_accepting := False\<rparr>\<rparr>)))"

definition sample_server_next :: server where
  "sample_server_next = sample_server\<lparr>srv_net := (srv_net sample_server)
     \<lparr>ni_socket := \<lparr>sock_id = 6, sock_open = True\<rparr>, ni_accepting := False\<rparr>\<rparr>"

lemma sample_server_unfold:
  "sample_server =
     \<lparr>srv_net = \<lparr>ni_socket = socket_closed, ni_acceptorOpen = True, ni_accepting = True\<rparr>,
      srv_connections = [Some \<lparr>cn_socket = \<lparr>sock_id = 5, sock_open = True\<rparr>, cn_address = ''10.0.0.1''\<rparr>, None, None],
      srv_activeConnections = 1, srv_running = True\<rparr>"
  by code_simp

lemma sample_server_reach: "srv_reach (sample_server, None)"
proof -
  let ?s = "Server_run Server_new"
  let ?t = "?s\<lparr>srv_net := (srv_net ?s)\<lparr>ni_socket := \<lparr>sock_id = 5, sock_open = True\<rparr>, ni_accepting := False\<rparr>\<rparr>"
  have "srv_step (?s, None) (?t, Some False)"
    by (rule srv_step.accepted) (simp_all add: Server_run_def Server_accept_def Server_new_def NI_new_def NI_onAccept_def)
  moreover have "attemptConnection (Some ''10.0.0.1'') (Some ''10.0.0.1'') False ?t = Some sample_server"
    by code_simp
  then have "srv_step (?t, Some False) (sample_server, None)"
    by (rule srv_step.handled [rotated]) (simp add: stable_def)
  ultimately show ?thesis using srv_reach.start srv_reach.step by metis
qed

lemma sample_server_next_reach: "srv_reach (sample_server_next, Some False)"
  unfolding sample_server_next_def
  by (rule srv_reach.step [OF sample_server_reach srv_step.accepted]) (simp_all add: sample_server_unfold)

theorem server_slots_witness:
  "srv_reach (sample_server, None) \<and> unat (srv_activeConnections sample_server) = 1 \<and>
   length (present (srv_connections sample_server)) = 1"
  using server_slots [OF sample_server_reach] sample_server_reach by (simp add: sample_server_unfold)

text \<open>
  Whenever an accept is under way, the interface's socket is closed, as the network library
  requires: every handler that returns has either moved the socket into a connection or closed it.
\<close>

lemma accept_socket_closed:
  assumes "srv_reach (s, h)" "ni_accepting (srv_net s)"
  shows "\<not> sock_open (ni_socket (srv_net s))"
  using srv_reach_inv [OF assms(1)] assms(2) by (auto simp: srv_inv_def)

lemma accept_socket_closed_sample:
  "ni_accepting (srv_net sample_server) \<and> \<not> sock_open (ni_socket (srv_net sample_server))"
  using accept_socket_closed [OF sample_server_reach] by (simp add: sample_server_unfold)

text \<open>
  a send offers the message to every connection, in slot order, and drops exactly those that
  cannot be written to; the counter follows. An empty message changes nothing.
\<close>

lemma server_send_effect:
  assumes "srv_reach (s, h)"
  shows "Server_send wr msg s =
    (if msg = [] then (s, [])
     else let ok = filter (\<lambda>c. wr (sock_id (cn_socket c)) msg) (present (srv_connections s))
          in (s\<lparr>srv_connections := map (keep wr msg) (srv_connections s),
                srv_activeConnections := of_nat (length ok)\<rparr>, map (sock_id \<circ> cn_socket) ok))"
  using server_send_eq [OF srv_reach_inv [OF assms]] by simp

lemma server_send_effect_sample:
  "fst (Server_send (\<lambda>_ _. False) ''x'' sample_server) =
     sample_server\<lparr>srv_connections := [None, None, None], srv_activeConnections := 0\<rparr> \<and>
   snd (Server_send (\<lambda>_ _. True) ''x'' sample_server) = [5]"
proof -
  have "present (srv_connections sample_server) =
      [\<lparr>cn_socket = \<lparr>sock_id = 5, sock_open = True\<rparr>, cn_address = ''10.0.0.1''\<rparr>]"
    "map (keep (\<lambda>_ _. False) ''x'') (srv_connections sample_server) = [None, None, None]"
    by (simp_all add: sample_server_unfold keep_def)
  then show ?thesis
    using server_send_effect [OF sample_server_reach, of "\<lambda>_ _. False" "''x''"]
      server_send_effect [OF sample_server_reach, of "\<lambda>_ _. True" "''x''"] by simp
qed

text \<open>
  C28: a new client whose address can be read is admitted exactly if a slot is free and no connection
  to that address exists: then it is the only connection added. Otherwise the connections stay as they
  are. In both cases the interface's socket is given away or closed, and the next accept is scheduled
  as long as the acceptor is open.
\<close>

theorem attemptConnection_admission:
  assumes "srv_reach (s, Some False)" "sock_open (ni_socket (srv_net s))"
  shows "\<exists>s'. attemptConnection (Some a) (Some a) False s = Some s' \<and>
    set (present (srv_connections s')) =
      (if length (present (srv_connections s)) < 3 \<and> a \<notin> cn_address ` set (present (srv_connections s))
       then insert \<lparr>cn_socket = ni_socket (srv_net s), cn_address = a\<rparr> (set (present (srv_connections s)))
       else set (present (srv_connections s))) \<and>
    \<not> sock_open (ni_socket (srv_net s')) \<and>
    ni_accepting (srv_net s') = ni_acceptorOpen (srv_net s)"
proof -
  have inv: "srv_inv (s, Some False)" by (rule srv_reach_inv [OF assms(1)])
  then have n: "unat (srv_activeConnections s) = length (present (srv_connections s))"
    "\<not> ni_accepting (srv_net s)" by (simp_all add: srv_inv_def)
  have "set (present (srv_connections (admitted a s))) =
      insert \<lparr>cn_socket = ni_socket (srv_net s), cn_address = a\<rparr> (set (present (srv_connections s)))"
    if "unat (srv_activeConnections s) < S_MAX_CLIENTS"
    by (rule free_slot [OF inv that]) (simp add: admitted_def present_fill(2))
  then show ?thesis
    using inv assms(2) n
    by (auto simp: attemptConnection_open isConnected_iff S_MAX_CLIENTS_def closed_again_def admitted_def net_defs)
qed

theorem attemptConnection_admission_witness:
  "\<exists>s'. attemptConnection (Some ''10.0.0.1'') (Some ''10.0.0.1'') False sample_server_next = Some s' \<and>
    set (present (srv_connections s')) = set (present (srv_connections sample_server_next)) \<and>
    \<not> sock_open (ni_socket (srv_net s')) \<and> ni_accepting (srv_net s')"
  using attemptConnection_admission [OF sample_server_next_reach, of "''10.0.0.1''"]
  by (simp add: sample_server_next_def sample_server_unfold)

text \<open>
  C29: the handler ends the whole program (an exception leaves a \<open>noexcept\<close> function) exactly if the
  socket is open but the network library cannot tell the peer's address any more, as when a client
  disconnects right after connecting.
\<close>

theorem attemptConnection_terminates_program:
  assumes "srv_reach (s, Some False)"
  shows "attemptConnection peer peer' False s = None \<longleftrightarrow>
    sock_open (ni_socket (srv_net s)) \<and>
    (length (present (srv_connections s)) < 3 \<and> peer = None \<or> peer' = None)"
proof -
  have inv: "srv_inv (s, Some False)" by (rule srv_reach_inv [OF assms])
  then have "unat (srv_activeConnections s) = length (present (srv_connections s))"
    by (simp add: srv_inv_def)
  with inv show ?thesis
    by (cases "sock_open (ni_socket (srv_net s))")
       (auto simp: attemptConnection_open attemptConnection_closed S_MAX_CLIENTS_def split: option.split)
qed

theorem attemptConnection_terminates_program_witness:
  "attemptConnection None None False sample_server_next = None"
  using attemptConnection_terminates_program [OF sample_server_next_reach]
  by (simp add: sample_server_next_def sample_server_unfold)

text \<open>
  once the server was stopped it has no connection any more and never gets one again, whatever
  happens afterwards: an accept that had already completed finds its socket closed.
\<close>

lemma stopped_server_stays_empty:
  assumes "srv_reach (s, h)" "srv_step\<^sup>*\<^sup>* (Server_stop s, h) (s', h')" "srv_running s"
  shows "srv_connections s' = [None, None, None]"
proof -
  have "srv_reach c' \<and> \<not> srv_running (fst c')" if "srv_step\<^sup>*\<^sup>* c c'" "srv_reach c" "\<not> srv_running (fst c)" for c c'
    using that
  proof (induction rule: rtranclp_induct)
    case (step c c')
    then show ?case using srv_reach.step srv_step_running by blast
  qed blast
  moreover have "srv_reach (Server_stop s, h)" using assms(1) srv_step.stopped by (rule srv_reach.step)
  moreover have "\<not> srv_running (Server_stop s)" by (simp add: Server_stop_def)
  ultimately have r: "srv_reach (s', h')" "\<not> srv_running s'" using assms(2) by force+
  then have "present (srv_connections s') = []" "length (srv_connections s') = 3"
    using srv_reach_inv [OF r(1)] by (simp_all add: srv_inv_def S_MAX_CLIENTS_def)
  then show ?thesis by (simp add: length_Suc_conv numeral_eq_Suc) (metis present.simps(2, 3) list.distinct(1) not_None_eq)
qed

lemma stopped_server_stays_empty_sample:
  "srv_step\<^sup>*\<^sup>* (Server_stop sample_server_next, Some False) (closed_again (Server_stop sample_server_next), None) \<and>
   srv_connections (closed_again (Server_stop sample_server_next)) = [None, None, None]"
proof -
  have "srv_step (Server_stop sample_server_next, Some False) (closed_again (Server_stop sample_server_next), None)"
    by (rule srv_step.handled [of None None], simp add: stable_def, rule attemptConnection_closed)
       (simp add: Server_stop_def net_defs sample_server_next_def sample_server_unfold)
  then show ?thesis
    using stopped_server_stays_empty [OF sample_server_next_reach r_into_rtranclp]
    by (auto simp: sample_server_next_def sample_server_unfold)
qed

end
