(* ===== verification/VFRB.thy ===== *)
theory VFRB
  imports Client_Manager Server
begin

text \<open>
  \<open>src/VFRB.cpp\<close>: the program itself. It owns the stores, the server and the feeds; \<open>run\<close> hands the feeds to
  the client manager and then serves the stores' content once a second until it is told to stop, while the
  threads of the clients and of the server go on.
\<close>

section \<open>Setting up\<close>

record 'p vfrb =
  v_stores :: stores
  v_statics :: parser_statics
  v_server :: "server \<times> bool option"
  v_feeds :: "'p feed_ref list"
  v_manager :: "'p clientManager"
  v_running :: bool

text \<open>The loop over the names; every exception of \<open>createFeed\<close> is caught and skips the feed.\<close>

fun createFeeds ::
  "'p ptree_lib \<Rightarrow> 'p configuration \<Rightarrow> string list \<Rightarrow> 'p feed list \<times> parser_statics \<Rightarrow> 'p feed list \<times> parser_statics" where
  "createFeeds L cfg [] (fs, st) = (fs, st)"
| "createFeeds L cfg (name # names) (fs, st) =
     (case createFeed L cfg name st of
        (Ret (Some f), st1) \<Rightarrow> createFeeds L cfg names (fs @ [f], st1)
      | (_, st1) \<Rightarrow> createFeeds L cfg names (fs, st1))"

definition VFRB_new :: "'p ptree_lib \<Rightarrow> tm \<Rightarrow> parser_statics \<Rightarrow> 'p configuration \<Rightarrow> 'p vfrb" where
  "VFRB_new L utc st0 cfg =
     (let (fs, st) = createFeeds L cfg (cfg_feedNames cfg) ([], st0)
      in \<lparr>v_stores = \<lparr>s_aircrafts = AircraftData_new (cfg_maxDistance cfg),
                      s_gps = GpsData_new utc (cfg_position cfg) (cfg_groundMode cfg),
                      s_atmosphere = AtmosphereData_new (Atmosphere_with (cfg_atmPressure cfg) 0),
                      s_wind = WindData_new (Wind_new 0)\<rparr>,
          v_statics = st, v_server = (Server_new, None), v_feeds = enumerate 0 fs,
          v_manager = ClientManager_new, v_running = False\<rparr>)"

text \<open>\<open>run\<close> up to \<open>serve\<close>, and what it does after it.\<close>

definition VFRB_start :: "'p ptree_lib \<Rightarrow> hash_lib \<Rightarrow> 'p vfrb \<Rightarrow> 'p vfrb" where
  "VFRB_start L H v =
     v\<lparr>v_running := True,
       v_manager := ClientManager_run (subscribe_all L H (v_feeds v) (v_manager v)),
       v_feeds := [],
       v_server := map_prod Server_run id (v_server v)\<rparr>"

definition VFRB_shutdown :: "'p vfrb \<Rightarrow> 'p vfrb" where
  "VFRB_shutdown v =
     v\<lparr>v_manager := ClientManager_stop (v_manager v), v_server := map_prod Server_stop id (v_server v)\<rparr>"

definition get_duration :: "nat \<Rightarrow> string" where
  "get_duration runtime =
     dec (runtime div 60 div 24) @ '' days, '' @ dec (runtime div 60) @ '' hours, '' @ dec (runtime mod 60) @ '' minutes''"

section \<open>Serving\<close>

text \<open>The message: every store appends its text.\<close>

definition collect :: "tm \<Rightarrow> stores \<Rightarrow> string \<times> stores" where
  "collect utc s =
     (let message = AircraftData_get_serialized (s_aircrafts s) [];
          (message, g) = GpsData_get_serialized utc (s_gps s) message;
          (message, a) = AtmosphereData_get_serialized (s_atmosphere s) message;
          (message, w) = WindData_get_serialized (s_wind s) message
      in (message, s\<lparr>s_gps := g, s_atmosphere := a, s_wind := w\<rparr>))"

text \<open>
  The body of the loop. \<open>wr\<close> tells which writes succeed. The exceptions are caught and end the loop;
  what an exception leaves behind in the aircrafts is not modelled, no step of it throws one.
\<close>

definition serve_body :: "tm \<Rightarrow> (nat \<Rightarrow> string \<Rightarrow> bool) \<Rightarrow> 'p vfrb \<Rightarrow> 'p vfrb outcome" where
  "serve_body utc wr v =
     obind (processAircrafts (GpsData_get_position (s_gps (v_stores v))) (get_atmPressure (s_atmosphere (v_stores v)))
              (s_aircrafts (v_stores v))) (\<lambda>ad.
       let (message, s) = collect utc ((v_stores v)\<lparr>s_aircrafts := ad\<rparr>)
       in Ret (v\<lparr>v_stores := s, v_server := map_prod (\<lambda>srv. fst (Server_send wr message srv)) id (v_server v)\<rparr>))"

definition serve_iteration :: "tm \<Rightarrow> (nat \<Rightarrow> string \<Rightarrow> bool) \<Rightarrow> 'p vfrb \<Rightarrow> 'p vfrb outcome" where
  "serve_iteration utc wr v = ocatch is_std_exception (serve_body utc wr v) (Ret (v\<lparr>v_running := False\<rparr>))"

text \<open>
  The loop. In its \<open>n\<close>-th round the clock shows \<open>utc n\<close> and \<open>wr n\<close> are the writes that succeed; before the
  round the other threads have done \<open>others n\<close>, the signal handler among them.
\<close>

partial_function (option) serve ::
  "(nat \<Rightarrow> tm) \<Rightarrow> (nat \<Rightarrow> nat \<Rightarrow> string \<Rightarrow> bool) \<Rightarrow> (nat \<Rightarrow> 'p vfrb \<Rightarrow> 'p vfrb) \<Rightarrow> nat \<Rightarrow> 'p vfrb \<Rightarrow> 'p vfrb outcome option" where
  "serve utc wr others n v =
     (let v1 = others n v in
      if v_running v1 then
        (case serve_iteration (utc n) (wr n) v1 of
           Ret v2 \<Rightarrow> serve utc wr others (Suc n) v2
         | r \<Rightarrow> Some r)
      else Some (Ret v1))"

section \<open>The running program\<close>

text \<open>The feeds of a client process a line one after the other.\<close>

fun process_feeds ::
  "environment \<Rightarrow> parser_statics \<Rightarrow> string \<Rightarrow> 'p feed_ref list \<Rightarrow> stores \<Rightarrow> (('p feed_ref \<times> bool) list \<times> stores) outcome" where
  "process_feeds e st response [] s = Ret ([], s)"
| "process_feeds e st response (f # fs) s =
     (case Feed_process e st (snd f) response s of
        (Ret b, s1) \<Rightarrow> omap (\<lambda>(rs, s2). ((f, b) # rs, s2)) (process_feeds e st response fs s1)
      | (Throw x, _) \<Rightarrow> Throw x
      | (UB, _) \<Rightarrow> UB)"

definition answer :: "('p feed_ref \<times> bool) list \<Rightarrow> 'p feed_ref \<Rightarrow> string \<Rightarrow> bool" where
  "answer rs f response = (map_of rs f \<noteq> Some False)"

abbreviation obj :: "'p vfrb \<Rightarrow> nat \<Rightarrow> 'p fclient" where
  "obj v a \<equiv> cm_objects (v_manager v) ! a"

text \<open>
  The interleaved steps of the threads: a client's thread runs it, completes an operation, hands a line to its
  feeds, or ends; the network library and the handler of the server; the serving thread; a signal; and the end. In between the
  time passes, for all clients alike.
\<close>

definition pass_time :: "nat \<Rightarrow> 'p clientManager \<Rightarrow> 'p clientManager" where
  "pass_time d m = m\<lparr>cm_objects := map (elapse d) (cm_objects m)\<rparr>"

inductive vfrb_step :: "hash_lib \<Rightarrow> 'p vfrb \<Rightarrow> 'p vfrb \<Rightarrow> bool" for H where
  client_run: "a \<in> set (cm_threads (v_manager v)) \<Longrightarrow>
     vfrb_step H v (v\<lparr>v_manager := on_client a Client_run (v_manager v)\<rparr>)"
| client_event: "a \<in> set (cm_threads (v_manager v)) \<Longrightarrow> p \<in> pend (obj v a) \<Longrightarrow>
     \<not> co_stopped (cl_connector (obj v a)) \<or> cl_state (obj v a) = STOPPING \<Longrightarrow> may_answer (cl_connector (obj v a)) p x \<Longrightarrow>
     \<not> (p_cb p = HandleRead \<and> x = SUCCESS \<and> cl_state (obj v a) = RUNNING) \<Longrightarrow>
     vfrb_step H v (v\<lparr>v_manager := on_client a (complete (\<lambda>_ _. True) p x response) (v_manager v)\<rparr>)"
| client_line: "a \<in> set (cm_threads (v_manager v)) \<Longrightarrow> p \<in> pend (obj v a) \<Longrightarrow> p_cb p = HandleRead \<Longrightarrow>
     \<not> co_stopped (cl_connector (obj v a)) \<Longrightarrow> cl_state (obj v a) = RUNNING \<Longrightarrow>
     process_feeds e (v_statics v) response (cl_feeds (obj v a)) (v_stores v) = Ret (rs, s) \<Longrightarrow>
     vfrb_step H v
       (v\<lparr>v_stores := s, v_manager := on_client a (complete (answer rs) p SUCCESS response) (v_manager v)\<rparr>)"
| client_ended: "a \<in> set (cm_threads (v_manager v)) \<Longrightarrow> cl_state (obj v a) \<noteq> NONE \<Longrightarrow>
     co_stopped (cl_connector (obj v a)) \<or> co_pending (cl_connector (obj v a)) = [] \<Longrightarrow>
     vfrb_step H v (v\<lparr>v_manager := thread_end H a (on_client a loop_ended (v_manager v))\<rparr>)"
| server_event: "srv_step (v_server v) x \<Longrightarrow> snd x \<noteq> snd (v_server v) \<Longrightarrow> vfrb_step H v (v\<lparr>v_server := x\<rparr>)"
| served: "v_running v \<Longrightarrow> serve_iteration utc wr v = Ret v' \<Longrightarrow> vfrb_step H v v'"
| signal: "vfrb_step H v (v\<lparr>v_running := False\<rparr>)"
| shutdown: "\<not> v_running v \<Longrightarrow> vfrb_step H v (VFRB_shutdown v)"
| time: "vfrb_step H v (v\<lparr>v_manager := pass_time d (v_manager v)\<rparr>)"

section \<open>The invariant of the program\<close>

definition cm_ok :: "'p clientManager \<Rightarrow> bool" where
  "cm_ok m \<longleftrightarrow>
     distinct (cm_clients m) \<and> (\<forall>a \<in> set (cm_clients m) \<union> set (cm_threads m). a < length (cm_objects m)) \<and>
     (\<forall>c \<in> set (cm_objects m). cl_reached c)"

text \<open>The stores are in states their own operations lead to.\<close>

definition stores_reach :: "int \<Rightarrow> bool \<Rightarrow> stores \<Rightarrow> bool" where
  "stores_reach maxDist ground s \<longleftrightarrow> ad_reach maxDist (s_aircrafts s) \<and> gd_reach ground (s_gps s)"

definition sys_inv :: "'p configuration \<Rightarrow> 'p vfrb \<Rightarrow> bool" where
  "sys_inv cfg v \<longleftrightarrow>
     stores_reach (cfg_maxDistance cfg) (cfg_groundMode cfg) (v_stores v) \<and>
     srv_reach (v_server v) \<and> cm_ok (v_manager v)"

lemma stores_reach_inv: "stores_reach maxDist ground s \<Longrightarrow> stores_inv s \<and> gd_groundMode (s_gps s) = ground"
  using ad_reach_inv gd_reach_inv by (auto simp: stores_reach_def stores_inv_def)

lemma process_with_ad_reach:
  assumes "ad_reach maxDist d"
  shows "ad_reach maxDist (snd (process_with pr u aircraft_update d))"
proof -
  have "ad_reach maxDist (snd (aircraft_update x d))" for x
    using assms ad_reach.update by (auto simp: aircraft_update_def split: outcome.split)
  then show ?thesis
    using assms by (auto simp: process_with_def split: option.split prod.split outcome.split bool.split) (metis snd_conv)+
qed

lemma process_with_gd_reach:
  assumes "gd_reach ground d"
  shows "gd_reach ground (snd (process_with pr u (GpsData_update utc) d))"
  using assms gd_reach.update [OF assms, of utc]
  by (auto simp: process_with_def split: option.split prod.split outcome.split bool.split) (metis snd_conv)+

lemma Feed_process_reach:
  assumes "stores_reach maxDist ground s"
  shows "stores_reach maxDist ground (snd (Feed_process e st f response s))"
  using assms
  by (cases "f_class f")
     (auto simp: Feed_process_def stores_reach_def AprscFeed_process_def SbsFeed_process_def GpsFeed_process_snd
        process_with_ad_reach process_with_gd_reach)

lemma on_client_ok:
  assumes "cm_ok m" "a < length (cm_objects m)" "cl_reached (cm_objects m ! a) \<Longrightarrow> cl_reached (g (cm_objects m ! a))"
  shows "cm_ok (on_client a g m)"
  using assms set_update_subset_insert [of "cm_objects m" a "g (cm_objects m ! a)"]
  by (auto simp: cm_ok_def on_client_def)

lemma cm_ok_step:
  assumes "cm_ok m" "a \<in> set (cm_threads m)" "cl_step proc (cm_objects m ! a) (g (cm_objects m ! a))"
  shows "cm_ok (on_client a g m)"
  using assms by (intro on_client_ok) (auto simp: cm_ok_def intro: cl_reached_step)

lemma thread_end_ok: "cm_ok m \<Longrightarrow> cm_ok (thread_end H a m)"
  by (auto simp: cm_ok_def thread_end_def split: option.split dest: in_set_remove1 [THEN iffD1] notin_set_remove1)

lemma stop_ok:
  assumes "cm_ok m"
  shows "cm_ok (ClientManager_stop m)"
proof -
  have *: "cm_ok (fold (\<lambda>a. on_client a scheduleStop) as m)" if "\<forall>a \<in> set as. a < length (cm_objects m)" for as
    using that assms
  proof (induction as arbitrary: m)
    case (Cons a as)
    have "cm_ok (on_client a scheduleStop m)"
      using Cons.prems by (intro on_client_ok) (auto intro: cl_reached_step [OF _ cl_step.stop])
    moreover have "length (cm_objects (on_client a scheduleStop m)) = length (cm_objects m)" by (simp add: on_client_def)
    ultimately show ?case using Cons by simp
  qed simp
  show ?thesis unfolding ClientManager_stop_def by (rule *) (use assms in \<open>simp add: cm_ok_def\<close>)
qed

lemma process_feeds_keeps:
  assumes "process_feeds e st response fs s = Ret (rs, s')" "stores_reach maxDist ground s"
  shows "stores_reach maxDist ground s' \<and>
    (\<forall>f b. (f, b) \<in> set rs \<longrightarrow>
      (\<exists>s1. stores_reach maxDist ground s1 \<and> fst (Feed_process e st (snd f) response s1) = Ret b))"
  using assms
proof (induction fs arbitrary: s rs)
  case (Cons f fs)
  obtain r s1 where f: "Feed_process e st (snd f) response s = (r, s1)" by (cases "Feed_process e st (snd f) response s")
  then obtain b where b: "r = Ret b" using Cons.prems(1) by (cases r) auto
  have "stores_reach maxDist ground s1"
    using Feed_process_reach [OF Cons.prems(2), of e st "snd f" response] f by simp
  moreover obtain qs where "process_feeds e st response fs s1 = Ret (qs, s')" "rs = (f, b) # qs"
    using Cons.prems(1) f b by (auto simp: omap_def elim!: obind_RetE)
  moreover have "fst (Feed_process e st (snd f) response s) = Ret b" using f b by simp
  ultimately show ?case using Cons.IH Cons.prems(2) by fastforce
qed simp

lemma collect_keeps:
  assumes "stores_reach maxDist ground s"
  shows "stores_reach maxDist ground (snd (collect utc s))"
  using assms gd_reach.get [of ground "s_gps s" utc]
  by (auto simp: collect_def stores_reach_def case_prod_beta Let_def)

lemma serve_iteration_keeps:
  assumes "sys_inv cfg v" "serve_iteration utc wr v = Ret v'"
  shows "sys_inv cfg v'"
proof (cases "serve_body utc wr v")
  case (Ret w)
  then obtain ad where ad: "processAircrafts (GpsData_get_position (s_gps (v_stores v)))
      (get_atmPressure (s_atmosphere (v_stores v))) (s_aircrafts (v_stores v)) = Ret ad"
    and w: "w = v\<lparr>v_stores := snd (collect utc ((v_stores v)\<lparr>s_aircrafts := ad\<rparr>)),
      v_server := map_prod (\<lambda>srv. fst (Server_send wr (fst (collect utc ((v_stores v)\<lparr>s_aircrafts := ad\<rparr>))) srv)) id (v_server v)\<rparr>"
    by (auto simp: serve_body_def case_prod_beta elim!: obind_RetE)
  have "stores_reach (cfg_maxDistance cfg) (cfg_groundMode cfg) ((v_stores v)\<lparr>s_aircrafts := ad\<rparr>)"
    using assms(1) ad_reach.process [OF _ ad] by (simp add: sys_inv_def stores_reach_def)
  moreover have "srv_reach (fst (Server_send wr m (fst (v_server v))), snd (v_server v))" for m
    using assms(1) srv_reach.step [OF _ srv_step.sent] by (cases "v_server v") (auto simp: sys_inv_def)
  ultimately have "sys_inv cfg w"
    using assms(1) collect_keeps by (simp add: w sys_inv_def map_prod_def case_prod_beta)
  then show ?thesis using assms(2) Ret by (simp add: serve_iteration_def)
qed (use assms in \<open>auto simp: serve_iteration_def sys_inv_def split: if_splits\<close>)

lemma vfrb_step_inv:
  assumes "vfrb_step H v v'" "sys_inv cfg v"
  shows "sys_inv cfg v'"
  using assms(1)
proof (cases rule: vfrb_step.cases)
  case (client_run a)
  then show ?thesis
    using assms(2) cm_ok_step [of "v_manager v" a "\<lambda>_ _. True" Client_run] by (simp add: sys_inv_def cl_step.run)
next
  case (client_event a p x response)
  then show ?thesis
    using assms(2) cm_ok_step [of "v_manager v" a "\<lambda>_ _. True" "complete (\<lambda>_ _. True) p x response"]
    by (simp add: sys_inv_def cl_step.completed)
next
  case (client_line a p e response rs s)
  moreover have "cl_inv (obj v a)" using assms(2) client_line(2) by (auto simp: sys_inv_def cm_ok_def intro: cl_reached_inv)
  ultimately show ?thesis
    using assms(2) cm_ok_step [of "v_manager v" a "answer rs" "complete (answer rs) p SUCCESS response"]
      process_feeds_keeps [of e "v_statics v" response _ "v_stores v" rs s]
    by (auto simp: sys_inv_def cl_step.completed read_answer)
next
  case (client_ended a)
  then show ?thesis
    using assms(2) thread_end_ok [OF cm_ok_step [of "v_manager v" a "\<lambda>_ _. True" loop_ended]]
    by (simp add: sys_inv_def cl_step.ended)
next
  case (server_event x)
  then show ?thesis using assms(2) srv_reach.step [of "v_server v" x] by (simp add: sys_inv_def)
next
  case (served utc wr)
  then show ?thesis using assms(2) serve_iteration_keeps by blast
next
  case shutdown
  then show ?thesis
    using assms(2) stop_ok [of "v_manager v"]
      srv_reach.step [OF _ srv_step.stopped [of "fst (v_server v)" "snd (v_server v)"]]
    by (simp add: sys_inv_def VFRB_shutdown_def map_prod_def case_prod_beta)
next
  case (time d)
  then show ?thesis
    using assms(2) by (auto simp: sys_inv_def cm_ok_def pass_time_def intro: cl_reached_step [OF _ cl_step.elapse])
qed (use assms(2) in \<open>simp add: sys_inv_def\<close>)

section \<open>Reachable states of the program\<close>

definition started :: "'p ptree_lib \<Rightarrow> hash_lib \<Rightarrow> 'p configuration \<Rightarrow> 'p vfrb \<Rightarrow> bool" where
  "started L H cfg v \<longleftrightarrow> (\<exists>utc st0. v = VFRB_start L H (VFRB_new L utc st0 cfg))"

interpretation sys: transition_system "started L H cfg" "vfrb_step H" for L H cfg .

lemma subscribe_reached:
  assumes "\<forall>c \<in> set (cm_objects m). cl_reached c"
  shows "\<forall>c \<in> set (cm_objects (ClientManager_subscribe L H f m)). cl_reached c"
proof -
  have sub: "cl_reached (Client_subscribe f c)" if "cl_reached c" for c
    by (rule cl_reached_step [OF that cl_step.subscribe])
  have new: "cl_reached (createClientFor L f)"
    by (simp add: createClientFor_def AprscClient_new_def cl_reached_new split: protocol.split)
  have "\<forall>c \<in> set (cs[a := Client_subscribe f (cs ! a)]). cl_reached c" if "\<forall>c \<in> set cs. cl_reached c" for cs a
    using that sub set_update_subset_insert [of cs a "Client_subscribe f (cs ! a)"]
    by (cases "a < length cs") (auto simp: list_update_beyond)
  then show ?thesis
    using assms new sub by (auto simp: ClientManager_subscribe_def on_client_def Let_def split: option.split)
qed

lemma subscribe_all_reached:
  "\<forall>c \<in> set (cm_objects m). cl_reached c \<Longrightarrow> \<forall>c \<in> set (cm_objects (subscribe_all L H fs m)). cl_reached c"
proof (induction fs arbitrary: m)
  case (Cons f fs)
  show ?case using Cons.IH [OF subscribe_reached [OF Cons.prems]] by simp
qed simp

lemma subscribe_all_threads: "cm_threads (subscribe_all L H fs m) = cm_threads m"
proof (induction fs arbitrary: m)
  case (Cons f fs)
  then show ?case by (simp add: ClientManager_subscribe_def on_client_def Let_def split: option.split)
qed simp

lemma started_inv:
  assumes "started L H cfg v"
  shows "sys_inv cfg v"
proof -
  obtain utc st0 where v: "v = VFRB_start L H (VFRB_new L utc st0 cfg)" using assms by (auto simp: started_def)
  obtain fs st where fs: "createFeeds L cfg (cfg_feedNames cfg) ([], st0) = (fs, st)" by force
  have "cm_ok (ClientManager_run (subscribe_all L H gs ClientManager_new))" for gs
  proof -
    have "\<forall>c \<in> set (cm_objects (subscribe_all L H gs ClientManager_new)). cl_reached c"
      by (rule subscribe_all_reached) (simp add: ClientManager_new_def)
    then show ?thesis
      using subscribed_all [of L H gs] subscribe_all_threads [of L H gs ClientManager_new]
      by (auto simp: cm_ok_def ClientManager_run_eq subscribed_def ClientManager_new_def)
  qed
  then show ?thesis
    by (simp add: v VFRB_start_def VFRB_new_def fs sys_inv_def stores_reach_def ad_reach.new gd_reach.new srv_reach.start)
qed

lemma sys_reach_inv: "sys.reach L H cfg v \<Longrightarrow> sys_inv cfg v"
  by (induction rule: sys.reach.induct) (auto intro: started_inv vfrb_step_inv)

lemma sys_run_inv:
  assumes "(vfrb_step H)\<^sup>*\<^sup>* (VFRB_start L H (VFRB_new L utc st0 cfg)) v"
  shows "sys_inv cfg v"
proof (rule sys_reach_inv)
  show "sys.reach L H cfg v"
    by (rule sys.reach_run [OF assms], rule sys.reach.start) (auto simp: started_def)
qed

section \<open>Properties of the program\<close>


text \<open>
  C34: A line that makes a client end itself can only occur in ground mode, and the client then serves a GPS feed. All other clients go on until the
  program is stopped.
\<close>

theorem only_ground_mode_ends_client:
  assumes "(vfrb_step H)\<^sup>*\<^sup>* (VFRB_start L H (VFRB_new L utc st0 cfg)) v"
    and "a \<in> set (cm_threads (v_manager v))" "p \<in> pend (obj v a)" "p_cb p = HandleRead"
    and "\<not> co_stopped (cl_connector (obj v a))"
    and "process_feeds e (v_statics v) response (cl_feeds (obj v a)) (v_stores v) = Ret (rs, s)"
    and "co_stopped (cl_connector (complete (answer rs) p SUCCESS response (obj v a)))"
  shows "cfg_groundMode cfg \<and> (\<exists>f \<in> set (cl_feeds (obj v a)). f_class (snd f) = GpsFeed)"
proof -
  have inv: "sys_inv cfg v" by (rule sys_run_inv [OF assms(1)])
  then have "cl_inv (obj v a)" using assms(2) by (auto simp: sys_inv_def cm_ok_def intro: cl_reached_inv)
  then obtain f where f: "f \<in> set (cl_feeds (obj v a))" "\<not> answer rs f response"
    using complete_inv(2) [of "obj v a" p SUCCESS "answer rs" response] assms(3, 4, 5, 7) by (auto simp: read_answer)
  then have "(f, False) \<in> set rs" by (simp add: answer_def map_of_SomeD)
  then obtain s1 where s1: "stores_reach (cfg_maxDistance cfg) (cfg_groundMode cfg) s1"
      "fst (Feed_process e (v_statics v) (snd f) response s1) = Ret False"
    using process_feeds_keeps [OF assms(6), of "cfg_maxDistance cfg" "cfg_groundMode cfg"] inv unfolding sys_inv_def by blast
  then show ?thesis
    using Feed_process_refuses [of s1 e "v_statics v" "snd f" response] stores_reach_inv [OF s1(1)] f(1) by auto
qed

text \<open>
  One round of serving sends the texts of the fresh aircrafts in their order, then the position, the atmosphere and the wind, and nothing else.
\<close>

lemma collect_message:
  "fst (collect utc s) =
     concat (map m_serialized (filter (\<lambda>a. m_updateAge a < OBJ_OUTDATED) (ad_container (s_aircrafts s)))) @
     fst (GpsData_get_serialized utc (s_gps s) []) @ m_serialized (atd_atmosphere (s_atmosphere s)) @
     m_serialized (wd_wind (s_wind s))"
proof -
  have "serialize_loop as dest = dest @ concat (map m_serialized (filter (\<lambda>a. m_updateAge a < OBJ_OUTDATED) as))" for as dest
    by (induction as arbitrary: dest) auto
  then show ?thesis
    by (simp add: collect_def AircraftData_get_serialized_def GpsData_get_serialized_def AtmosphereData_get_serialized_def
        WindData_get_serialized_def Let_def case_prod_beta Object_incr_def)
qed

text \<open>
  The serving loop ends: if from some round on the program is not running any more, because a signal was caught, the loop returns, whatever the
  clock, the network and the other threads do.
\<close>

lemma serve_terminates:
  assumes "\<forall>w. \<not> v_running (others k w)"
  shows "\<exists>r. serve utc wr others 0 v = Some r"
proof -
  have "\<exists>r. serve utc wr others n v = Some r" if "n \<le> k" for n v
    using that
  proof (induction "k - n" arbitrary: n v)
    case 0
    then show ?case using assms by (subst serve.simps) (simp add: Let_def)
  next
    case (Suc d)
    then have "\<exists>r. serve utc wr others (Suc n) w = Some r" for w by simp
    then show ?case by (subst serve.simps) (auto simp: Let_def split: outcome.split)
  qed
  then show ?thesis by simp
qed

section \<open>An example run\<close>

text \<open>A script of one client's completions is a run of the program.\<close>

lemma on_client_simps [simp]:
  "cm_threads (on_client a g m) = cm_threads m" "length (cm_objects (on_client a g m)) = length (cm_objects m)"
  "a < length (cm_objects m) \<Longrightarrow> cm_objects (on_client a g m) ! a = g (cm_objects m ! a)"
  "on_client a h (on_client a g m) = on_client a (h \<circ> g) m"
  by (auto simp: on_client_def) (cases "a < length (cm_objects m)", simp_all add: list_update_beyond)

lemma on_client_same: "g (cm_objects m ! a) = cm_objects m ! a \<Longrightarrow> on_client a g m = m"
  by (simp add: on_client_def)

lemma drive_program:
  assumes "a \<in> set (cm_threads (v_manager v))" "a < length (cm_objects (v_manager v))" "HandleRead \<notin> fst ` set evs"
  shows "(vfrb_step H)\<^sup>*\<^sup>* v (v\<lparr>v_manager := on_client a (drive (\<lambda>_ _. True) evs) (v_manager v)\<rparr>)"
  using assms
proof (induction evs arbitrary: v)
  case (Cons ev evs)
  obtain cb x r where ev: "ev = (cb, x, r)" by (cases ev)
  let ?c = "obj v a"
  show ?case
  proof (cases "\<exists>p. find (\<lambda>p. p_cb p = cb) (co_pending (cl_connector ?c)) = Some p \<and>
      \<not> co_stopped (cl_connector ?c) \<and> may_answer (cl_connector ?c) p x")
    case True
    then obtain p where p: "find (\<lambda>p. p_cb p = cb) (co_pending (cl_connector ?c)) = Some p"
        "\<not> co_stopped (cl_connector ?c)" "may_answer (cl_connector ?c) p x" by blast
    let ?g = "complete (\<lambda>_ _. True) p x r"
    let ?v = "v\<lparr>v_manager := on_client a ?g (v_manager v)\<rparr>"
    have "p \<in> pend ?c" "p_cb p = cb" using p(1) by (auto simp: find_Some_iff)
    then have "vfrb_step H v ?v" using p Cons.prems ev by (intro vfrb_step.client_event) auto
    moreover have "(vfrb_step H)\<^sup>*\<^sup>* ?v (v\<lparr>v_manager := on_client a (drive (\<lambda>_ _. True) evs) (on_client a ?g (v_manager v))\<rparr>)"
      using Cons.IH [of ?v] Cons.prems by simp
    moreover have "on_client a (drive (\<lambda>_ _. True) evs) (on_client a ?g (v_manager v)) =
        on_client a (drive (\<lambda>_ _. True) (ev # evs)) (v_manager v)"
      using p ev Cons.prems(2) by (simp add: on_client_def)
    ultimately show ?thesis by (metis converse_rtranclp_into_rtranclp)
  next
    case False
    then have "drive (\<lambda>_ _. True) (ev # evs) ?c = ?c" by (auto simp: ev split: option.split)
    then show ?thesis by (simp add: on_client_same)
  qed
qed (simp add: on_client_same)

definition sample_caps :: captures where
  "sample_caps = [(1, ''000000''), (2, ''0''), (3, ''N''), (4, ''0''), (5, ''E''), (6, ''1''), (7, ''07''), (8, ''0''),
     (9, ''0''), (10, ''0'')]"

definition ground_env :: environment where
  "ground_env = \<lparr>e_re = (\<lambda>r s. Some sample_caps), e_day = 58000, e_now = 0, e_utc = sample_tm, e_pos0 = Position_zero\<rparr>"

definition ground_report :: gpsPosition where
  "ground_report =
     \<lparr>m_lastPriority = 0, m_updateAge = 0, m_serialized = [],
      gps_position = \<lparr>latitude = dmToDeg (Fin False 0), longitude = dmToDeg (Fin False 0), altitude = 0\<rparr>,
      gps_geoid = Fin False 0, gps_timeStamp = TimeStamp 0 57999, gps_dilution = Fin False 0,
      gps_nrOfSatellites = 7, gps_fixQuality = 1\<rparr>"

lemma ground_line: "gps_unpack ground_env ''$*00'' 0 = (Ret True, DGpsPosition ground_report)"
proof -
  have caps: "cap sample_caps (Suc 0) = ''000000''" "cap sample_caps 2 = ''0''" "cap sample_caps 3 = ''N''" "cap sample_caps 4 = ''0''"
    "cap sample_caps 5 = ''E''" "cap sample_caps 6 = ''1''" "cap sample_caps 7 = ''07''" "cap sample_caps 8 = ''0''"
    "cap sample_caps 9 = ''0''" "cap sample_caps 10 = ''0''"
    by (simp_all add: cap_def sample_caps_def)
  have nums: "stod ''0'' = Ret (Fin False 0)" "stoi ''1'' 10 = Ret 1" "stoi ''07'' 10 = Ret 7"
    "doubleToInt (Fin False 0) = Ret 0" "TimeStamp_new 58000 0 ''000000'' HHMMSS = Ret (TimeStamp 0 57999)"
    "checksum_ok ''$*00'' = Ret True"
    by code_simp+
  have "parse_angle ''0'' ''N'' ''S'' = Ret (dmToDeg (Fin False 0))" "parse_angle ''0'' ''E'' ''W'' = Ret (dmToDeg (Fin False 0))"
    by (simp_all add: parse_angle_def nums signed_def)
  then show ?thesis
    by (simp add: gps_unpack_def GpsParser_unpack_def ground_env_def nums caps GpsParser_parsePosition_def gga_position_def
        andthen_def setting_def succeeds_def GpsPosition_new_def Object_new_def ground_report_def
        object.defs gpsPosition.defs)
qed

definition ground_cfg :: "(string \<times> string) list configuration" where
  "ground_cfg =
     \<lparr>cfg_position = GpsPosition_at Position_zero (Fin False 0), cfg_atmPressure = ICAO_STD_A, cfg_maxHeight = 0,
      cfg_maxDistance = 0, cfg_serverPort = 4353, cfg_groundMode = True, cfg_feedNames = [''gps''],
      cfg_feedProperties = [''gps'' \<mapsto> [(''host'', ''h''), (''port'', ''1''), (''priority'', ''0'')]]\<rparr>"

lemma ground_cfg_simps:
  "cfg_position ground_cfg = GpsPosition_at Position_zero (Fin False 0)" "cfg_groundMode ground_cfg"
  by (simp_all add: ground_cfg_def)

definition ground_feed :: "(string \<times> string) list feed" where
  "ground_feed = \<lparr>f_class = GpsFeed, f_name = ''gps'',
     f_properties = [(''host'', ''h''), (''port'', ''1''), (''priority'', ''0'')], f_priority = Some 0\<rparr>"

lemma ground_feeds:
  "createFeeds sample_lib ground_cfg (cfg_feedNames ground_cfg) ([], sample_statics) = ([ground_feed], sample_statics)"
  by code_simp

lemma ground_refuses:
  "fst (Feed_process ground_env sample_statics ground_feed ''$*00''
     (v_stores (VFRB_new sample_lib sample_tm sample_statics ground_cfg))) = Ret False"
proof -
  let ?s = "v_stores (VFRB_new sample_lib sample_tm sample_statics ground_cfg)"
  have "stores_reach (cfg_maxDistance ground_cfg) (cfg_groundMode ground_cfg) ?s"
    by (simp add: VFRB_new_def ground_feeds stores_reach_def ad_reach.new gd_reach.new)
  then have inv: "stores_inv ?s" "gd_groundMode (s_gps ?s)" using stores_reach_inv ground_cfg_simps by blast+
  have "ts_gt (TimeStamp 0 57999) (gps_timeStamp (GpsPosition_at Position_zero (Fin False 0)))"
    "m_lastPriority (GpsPosition_at Position_zero (Fin False 0)) = 0" by code_simp+
  then have "GpsPosition_canUpdate ground_report (GpsPosition_at Position_zero (Fin False 0))"
    by (simp add: GpsPosition_canUpdate_def Object_canUpdate_def ground_report_def)
  then have "GpsPosition_canUpdate ground_report (gd_position (s_gps ?s))"
    by (simp add: VFRB_new_def ground_feeds ground_cfg_simps GpsData_new_def GpsPosition_canUpdate_def Object_canUpdate_def)
  moreover have "isPositionGood ((s_gps ?s)\<lparr>gd_position := ground_report\<rparr>)"
  proof -
    have "d_le (Fin False 0) (dlit 1)" by code_simp
    then show ?thesis
      by (simp add: isPositionGood_def ground_report_def GPS_NR_SATS_GOOD_def GPS_FIX_GOOD_def GPS_HOR_DILUTION_GOOD_def)
  qed
  ultimately show ?thesis
    using Feed_process_refuses [OF inv(1), of ground_env sample_statics ground_feed "''$*00''"] inv(2) ground_line
    by (auto simp: ground_feed_def)
qed

definition ground_client :: "(string \<times> string) list fclient" where
  "ground_client = (Client_new GpsdClient \<lparr>host = ''h'', port = ''1''\<rparr>)\<lparr>cl_feeds := [(0, ground_feed)]\<rparr>"

abbreviation ground_start :: "(string \<times> string) list vfrb" where
  "ground_start \<equiv> VFRB_start sample_lib sample_hash (VFRB_new sample_lib sample_tm sample_statics ground_cfg)"

abbreviation ground_script :: "(string \<times> string) list fclient \<Rightarrow> (string \<times> string) list fclient" where
  "ground_script \<equiv> drive (\<lambda>_ _. True) [(HandleConnect, SUCCESS, []), (HandleConnect, SUCCESS, []), (HandleWatch, SUCCESS, [])]"

definition ground_run :: "(string \<times> string) list vfrb" where
  "ground_run = ground_start\<lparr>v_manager := on_client 0 (ground_script \<circ> Client_run) (v_manager ground_start)\<rparr>"

lemma ground_manager:
  "v_manager ground_start = \<lparr>cm_objects = [ground_client], cm_clients = [0], cm_threads = [0]\<rparr>"
proof -
  have "get_endpoint sample_lib ground_feed = \<lparr>host = ''h'', port = ''1''\<rparr>" "get_protocol ground_feed = GPS"
    by code_simp+
  then show ?thesis
    by (simp add: VFRB_start_def VFRB_new_def ground_feeds ClientManager_run_eq ClientManager_subscribe_def set_find_def
        on_client_def ClientManager_new_def createClientFor_def ground_client_def Client_new_def Client_subscribe_def)
qed

lemma ground_run_reached: "(vfrb_step sample_hash)\<^sup>*\<^sup>* ground_start ground_run"
proof -
  let ?v = "ground_start\<lparr>v_manager := on_client 0 Client_run (v_manager ground_start)\<rparr>"
  have "vfrb_step sample_hash ground_start ?v" by (rule vfrb_step.client_run) (simp add: ground_manager)
  moreover have "(vfrb_step sample_hash)\<^sup>*\<^sup>* ?v (?v\<lparr>v_manager := on_client 0 ground_script (v_manager ?v)\<rparr>)"
    by (rule drive_program) (simp_all add: ground_manager)
  ultimately show ?thesis by (simp add: ground_run_def converse_rtranclp_into_rtranclp del: drive.simps)
qed

lemma ground_run_client:
  "obj ground_run 0 = ground_client\<lparr>cl_state := RUNNING, cl_connector :=
     \<lparr>co_open = True, co_stopped = False, co_pending = [\<lparr>p_op = Read, p_cb = HandleRead, p_cancelled = False, p_late = False\<rparr>],
      co_expiry = not_a_date_time, co_now = 0\<rparr>\<rparr>"
  by (simp add: ground_run_def ground_manager on_client_def)
     (simp add: ground_client_def scripted onWrite_def handleWatch_def)

theorem only_ground_mode_ends_client_witness:
  "cfg_groundMode ground_cfg \<and> (\<exists>f \<in> set (cl_feeds (obj ground_run 0)). f_class (snd f) = GpsFeed)"
proof -
  let ?p = "\<lparr>p_op = Read, p_cb = HandleRead, p_cancelled = False, p_late = False\<rparr>"
  have sys: "v_stores ground_run = v_stores (VFRB_new sample_lib sample_tm sample_statics ground_cfg)"
    "v_statics ground_run = sample_statics"
    by (simp_all add: ground_run_def VFRB_start_def VFRB_new_def ground_feeds)
  obtain s where s: "Feed_process ground_env sample_statics ground_feed ''$*00'' (v_stores ground_run) = (Ret False, s)"
    using ground_refuses sys by (metis prod.collapse)
  show ?thesis
  proof (rule only_ground_mode_ends_client [OF ground_run_reached])
    show "process_feeds ground_env (v_statics ground_run) ''$*00'' (cl_feeds (obj ground_run 0)) (v_stores ground_run) =
        Ret ([((0, ground_feed), False)], s)"
      using s sys by (simp add: ground_run_client ground_client_def)
    show "co_stopped (cl_connector (complete (answer [((0, ground_feed), False)]) ?p SUCCESS ''$*00'' (obj ground_run 0)))"
      by (simp add: ground_run_client) (simp add: ground_client_def scripted onWrite_def answer_def)
  qed (simp_all add: ground_run_client, simp add: ground_run_def ground_manager)
qed


text \<open>The hours of a duration are not reduced to those of the last day.\<close>

lemma get_duration_hours: "get_duration 1500 = ''1 days, 25 hours, 0 minutes''"
  by code_simp

end
