(* ===== verification/Util_Logger.thy ===== *)
theory Util_Logger
  imports VFRB_Prelude
begin

text \<open>
  \<open>include/util/Logger.hpp\<close> and \<open>src/util/Logger.cpp\<close>: the log. It writes to the standard streams or to a file.
\<close>

section \<open>Definitions\<close>

datatype out_stream = Cout | Cerr | LogFile

text \<open>\<open>lg_text\<close> is what the streams have received.\<close>

record Logger =
  lg_outStream :: out_stream
  lg_errStream :: out_stream
  lg_debugEnabled :: bool
  lg_text :: "out_stream \<Rightarrow> string"

definition Logger_new :: "(out_stream \<Rightarrow> string) \<Rightarrow> Logger" where
  "Logger_new txt = \<lparr>lg_outStream = Cout, lg_errStream = Cerr, lg_debugEnabled = False, lg_text = txt\<rparr>"

definition put :: "out_stream \<Rightarrow> string \<Rightarrow> Logger \<Rightarrow> Logger" where
  "put out s l = l\<lparr>lg_text := (lg_text l)(out := lg_text l out @ s)\<rparr>"

text \<open>The variadic \<open>log\<close>: the arguments one after the other, and the end of the line after the last.\<close>

fun log_args :: "out_stream \<Rightarrow> string list \<Rightarrow> Logger \<Rightarrow> Logger" where
  "log_args out [] l = l"
| "log_args out [arg] l = put out (arg @ [CHR 0x0A]) l"
| "log_args out (head # tail) l = log_args out tail (put out head l)"

text \<open>The levels; \<open>time\<close> is the formatted time of the call.\<close>

definition log_info :: "string \<Rightarrow> string list \<Rightarrow> Logger \<Rightarrow> Logger" where
  "log_info time msg l = log_args (lg_outStream l) msg (put (lg_outStream l) (''[INFO]  '' @ time @ '':: '') l)"

definition log_debug :: "string \<Rightarrow> string list \<Rightarrow> Logger \<Rightarrow> Logger" where
  "log_debug time msg l =
     (if lg_debugEnabled l
      then log_args (lg_outStream l) msg (put (lg_outStream l) (''[DEBUG] '' @ time @ '':: '') l) else l)"

definition log_warn :: "string \<Rightarrow> string list \<Rightarrow> Logger \<Rightarrow> Logger" where
  "log_warn time msg l = log_args (lg_outStream l) msg (put (lg_outStream l) (''[WARN]  '' @ time @ '':: '') l)"

definition log_error :: "string \<Rightarrow> string list \<Rightarrow> Logger \<Rightarrow> Logger" where
  "log_error time msg l = log_args (lg_errStream l) msg (put (lg_errStream l) (''[ERROR] '' @ time @ '':: '') l)"

definition set_debug :: "bool \<Rightarrow> Logger \<Rightarrow> Logger" where
  "set_debug enable l = l\<lparr>lg_debugEnabled := enable\<rparr>"

text \<open>Opening the file empties it, and fails if \<open>ok\<close> does not hold; the failure leaves the streams as they were.\<close>

definition set_logFile :: "bool \<Rightarrow> Logger \<Rightarrow> unit outcome \<times> Logger" where
  "set_logFile ok l =
     (if ok then (Ret (), l\<lparr>lg_text := (lg_text l)(LogFile := []), lg_outStream := LogFile, lg_errStream := LogFile\<rparr>)
      else (Throw Runtime_error, l))"

section \<open>Every call writes one line\<close>

lemma put_simps [simp]:
  "lg_text (put out s l) x = (if x = out then lg_text l out @ s else lg_text l x)"
  "lg_outStream (put out s l) = lg_outStream l" "lg_errStream (put out s l) = lg_errStream l"
  "lg_debugEnabled (put out s l) = lg_debugEnabled l" "put out t (put out s l) = put out (s @ t) l"
  by (simp_all add: put_def)

lemma log_args_eq: "msg \<noteq> [] \<Longrightarrow> log_args out msg l = put out (concat msg @ [CHR 0x0A]) l"
  by (induction out msg l rule: log_args.induct) simp_all

text \<open>
  Every call on an enabled level appends exactly one line to one stream, made of the level, the time and the arguments, and leaves the other
  streams alone: errors go to the error stream, all else to the output stream. Once a file was opened both go to the file.
\<close>

lemma log_one_line:
  assumes "msg \<noteq> []"
  shows "log_error time msg l = put (lg_errStream l) (''[ERROR] '' @ time @ '':: '' @ concat msg @ [CHR 0x0A]) l \<and>
    log_info time msg l = put (lg_outStream l) (''[INFO]  '' @ time @ '':: '' @ concat msg @ [CHR 0x0A]) l \<and>
    log_warn time msg l = put (lg_outStream l) (''[WARN]  '' @ time @ '':: '' @ concat msg @ [CHR 0x0A]) l \<and>
    log_debug time msg l =
      (if lg_debugEnabled l then put (lg_outStream l) (''[DEBUG] '' @ time @ '':: '' @ concat msg @ [CHR 0x0A]) l else l)"
  using assms by (simp add: log_error_def log_info_def log_warn_def log_debug_def log_args_eq)

end
