(* ===== verification/Main_Program.thy ===== *)
theory Main_Program
  imports VFRB Util_Logger
begin

text \<open>
  \<open>src/main.cpp\<close>: the arguments, the configuration, and the exit code.
\<close>

section \<open>Definitions\<close>

text \<open>
  What the program reads from \<open>program_options::variables_map\<close>. Parsing the command line is library code: \<open>parse\<close> is what it
  yields, or the exception it throws.
\<close>

record variables =
  vm_help :: bool
  vm_verbose :: bool
  vm_groundMode :: bool
  vm_config :: "string option"
  vm_output :: "string option"

definition evalArgs :: "(string list \<Rightarrow> variables outcome) \<Rightarrow> string list \<Rightarrow> variables outcome" where
  "evalArgs parse argv =
     obind (parse argv) (\<lambda>variables.
       if length argv < 3 \<or> vm_help variables then Throw Thrown_int else Ret variables)"

text \<open>
  The file system: the content of a readable file, and whether a file can be opened for writing. \<open>time\<close> is the time in the log.
\<close>

record file_system =
  fs_read :: "string \<Rightarrow> string option"
  fs_writable :: "string \<Rightarrow> bool"
  fs_time :: string

definition log_setup :: "file_system \<Rightarrow> variables \<Rightarrow> Logger \<Rightarrow> unit outcome \<times> Logger" where
  "log_setup F v l =
     (let l1 = (if vm_verbose v then set_debug True l else l)
      in case vm_output v of
           Some f \<Rightarrow> set_logFile (fs_writable F f) l1
         | None \<Rightarrow> (Ret (), l1))"

definition get_config ::
  "'p ptree_lib \<Rightarrow> file_system \<Rightarrow> string \<Rightarrow> variables \<Rightarrow> Logger \<Rightarrow> 'p configuration outcome \<times> Logger" where
  "get_config L F version v l =
     (case log_setup F v l of
        (Ret _, l1) \<Rightarrow>
          (let l2 = log_info (fs_time F) [''VirtualFlightRadar-Backend -- '' @ version] l1 in
           case vm_config v of
             None \<Rightarrow> (Throw Logic_error, l2)
           | Some path \<Rightarrow>
               (case fs_read F path of
                  None \<Rightarrow> (Throw Logic_error, l2)
                | Some text \<Rightarrow>
                    (case Configuration_new L text of
                       Ret conf \<Rightarrow>
                         if vm_groundMode v
                         then (Ret (set_groundMode True conf), log_info (fs_time F) [''(VFRB) Override ground mode: Yes''] l2)
                         else (Ret conf, l2)
                     | r \<Rightarrow> (r, l2))))
      | (Throw e, l1) \<Rightarrow> (Throw e, l1)
      | (UB, l1) \<Rightarrow> (UB, l1))"

text \<open>
  The constructor of the program opens the server's port, which fails if \<open>bind\<close> says so. A program that could be set up runs, and \<open>run\<close>
  lets no exception out.
\<close>

definition construct ::
  "'p ptree_lib \<Rightarrow> tm \<Rightarrow> (uint16 \<Rightarrow> bool) \<Rightarrow> 'p configuration \<Rightarrow> 'p vfrb outcome" where
  "construct L utc bind cfg =
     (if bind (cfg_serverPort cfg) then Ret (VFRB_new L utc parser_statics_init cfg) else Throw System_error)"

definition main_setup ::
  "'p ptree_lib \<Rightarrow> (string list \<Rightarrow> variables outcome) \<Rightarrow> file_system \<Rightarrow> string \<Rightarrow> tm \<Rightarrow> (uint16 \<Rightarrow> bool) \<Rightarrow>
     string list \<Rightarrow> Logger \<Rightarrow> 'p vfrb outcome \<times> Logger" where
  "main_setup L parse F version utc bind argv l =
     (case evalArgs parse argv of
        Ret v \<Rightarrow> map_prod (\<lambda>r. obind r (construct L utc bind)) id (get_config L F version v l)
      | Throw e \<Rightarrow> (Throw e, l)
      | UB \<Rightarrow> (UB, l))"

text \<open>The exit code; \<open>None\<close> stands for undefined behaviour.\<close>

definition exit_code :: "'p vfrb outcome \<Rightarrow> int option" where
  "exit_code r =
     (case r of
        Ret _ \<Rightarrow> Some 0
      | Throw e \<Rightarrow> Some 1
      | UB \<Rightarrow> None)"

section \<open>Properties\<close>

lemma log_setup_cases:
  "fst (log_setup F v l) = (if \<forall>f. vm_output v = Some f \<longrightarrow> fs_writable F f then Ret () else Throw Runtime_error)"
  by (auto simp: log_setup_def set_logFile_def Let_def split: option.split)

lemma get_config_eq:
  "fst (get_config L F version v l) =
     (if \<forall>f. vm_output v = Some f \<longrightarrow> fs_writable F f then
        (case vm_config v of
           None \<Rightarrow> Throw Logic_error
         | Some path \<Rightarrow>
             (case fs_read F path of
                None \<Rightarrow> Throw Logic_error
              | Some text \<Rightarrow>
                  omap (\<lambda>cfg. cfg\<lparr>cfg_groundMode := cfg_groundMode cfg \<or> vm_groundMode v\<rparr>) (Configuration_new L text)))
      else Throw Runtime_error)"
proof -
  obtain r l1 where l: "log_setup F v l = (r, l1)" by (cases "log_setup F v l")
  then show ?thesis
    using log_setup_cases [of F v l]
    by (cases "\<forall>f. vm_output v = Some f \<longrightarrow> fs_writable F f")
       (auto simp: get_config_def Let_def set_groundMode_def split: option.split outcome.split)
qed



end
