(* ===== verification/Nmea.thy ===== *)
theory Nmea
  imports Data_Processor Feed_Parsers
begin

text \<open>
  The sentences the processors print and the test the parsers make agree: what \<open>finishSentence\<close> appends is the
  checksum \<open>checksum_ok\<close> looks for.
\<close>

section \<open>Characters of a sentence\<close>

definition plain :: "char \<Rightarrow> bool" where
  "plain c \<longleftrightarrow> ascii c \<and> c \<noteq> CHR ''*'' \<and> c \<noteq> CHR 0x00"

abbreviation plains :: "string \<Rightarrow> bool" where "plains s \<equiv> list_all plain s"

lemma plain_digit_char:
  assumes "d < 16"
  shows "plain (digit_char up d)"
proof -
  have "list_all (\<lambda>d. plain (digit_char True d)) [0..<16]" "list_all (\<lambda>d. plain (digit_char False d)) [0..<16]"
    by code_simp+
  then have "plain (digit_char True d)" "plain (digit_char False d)" using assms unfolding list_all_iff by auto
  then show ?thesis by (cases up) simp_all
qed

lemma plains_digits:
  assumes "2 \<le> b" "b \<le> 16"
  shows "plains (nat_digits up b n)"
  using assms
proof (induction up b n rule: nat_digits.induct)
  case (1 up b n)
  have "n mod b < 16" using "1.prems" mod_less_divisor [of b n] by linarith
  then show ?case using 1 by (subst nat_digits.simps) (simp add: plain_digit_char)
qed

lemma plain_lits: "plain (CHR ''0'')" "plain (CHR '' '')" "plain (CHR ''-'')" "plain (CHR ''.'')"
  by code_simp+

lemma plains_pad [simp]: "plains s \<Longrightarrow> plains (pad0 w s)" "plains s \<Longrightarrow> plains (padsp w s)"
  by (auto simp: pad0_def padsp_def list_all_iff plain_lits)

lemma plains_fmt [simp]:
  "plains (dec n)" "plains (fmt_0d w i)" "plains (fmt_d i)" "plains (fmt_0x w i)" "plains (fmt_hhu w b)"
  "plains (fmt_hhX b)" "plains (fixed_digits q m)" "plains (fmt_f z w q v)"
proof -
  show d: "plains (dec n)" for n by (simp add: dec_def plains_digits)
  then show "plains (fmt_0d w i)" "plains (fmt_d i)" "plains (fmt_hhu w b)"
    by (simp_all add: fmt_0d_def fmt_d_def fmt_hhu_def plain_lits)
  show "plains (fmt_0x w i)" "plains (fmt_hhX b)" by (simp_all add: fmt_0x_def fmt_hhX_def plains_digits)
  show f: "plains (fixed_digits q m)" for m using d by (simp add: fixed_digits_def Let_def plain_lits)
  have "plains ''inf''" "plains ''-inf''" "plains ''nan''" by code_simp+
  then show "plains (fmt_f z w q v)" using f by (cases v) (auto simp: Let_def plain_lits)
qed

section \<open>The checksum\<close>

lemma checksum_of_body:
  assumes "plains xs"
  shows "Suc (length xs) < n \<Longrightarrow> checksum (CHR ''$'' # xs @ CHR ''*'' # ys) n = checksum_loop 0 xs"
    and "0 \<le> checksum_loop 0 xs" "checksum_loop 0 xs < 128"
proof -
  have p: "\<forall>c \<in> set xs. c \<noteq> CHR ''*'' \<and> c \<noteq> CHR 0x00" and a: "\<forall>c \<in> set xs. ascii c"
    using assms(1) by (auto simp: list_all_iff plain_def)
  show "checksum (CHR ''$'' # xs @ CHR ''*'' # ys) n = checksum_loop 0 xs" if len: "Suc (length xs) < n"
  proof -
    obtain k where k: "n = Suc (Suc (length xs + k))" using less_imp_Suc_add [OF len] by auto
    show ?thesis using checksum_loop_append [OF p, of 0 "take k ys"] by (simp add: checksum_def k)
  qed
  show "0 \<le> checksum_loop 0 xs" "checksum_loop 0 xs < 128"
    using checksum_loop_ascii [of xs 0] a by (auto dest: set_takeWhileD)
qed

lemma finished_sentence:
  assumes "plains xs" "length xs < 4000"
  defines "hh \<equiv> fmt_0x 2 (checksum_loop 0 xs)"
  shows "m_processed (finishSentence (print_append (CHR ''$'' # xs @ ''*'') p)) =
      m_processed p @ CHR ''$'' # xs @ CHR ''*'' # hh @ crlf"
    and "checksum_ok (CHR ''$'' # xs @ CHR ''*'' # hh @ crlf) = Ret True"
proof -
  note c = checksum_of_body [OF assms(1)]
  let ?n = "nat (checksum_loop 0 xs)"
  have n: "?n < 16 ^ 2" "int ?n = checksum_loop 0 xs" using c(2, 3) by simp_all
  have hh: "hh = pad0 2 (nat_digits False 16 ?n)" using c(2, 3) by (simp add: hh_def fmt_0x_def)
  then have len: "length hh = 2" using length_pad0_digits [of 16 ?n 2 False] n(1) by simp
  have "checksum (CHR ''$'' # xs @ ''*'') BUFFER_SIZE = checksum_loop 0 xs"
    using c(1) [of BUFFER_SIZE "[]"] assms(2) by (simp add: BUFFER_SIZE_def)
  then show "m_processed (finishSentence (print_append (CHR ''$'' # xs @ ''*'') p)) =
      m_processed p @ CHR ''$'' # xs @ CHR ''*'' # hh @ crlf"
    using assms(2) len by (simp add: finishSentence_def print_append_def snprintf_def BUFFER_SIZE_def hh_def crlf_def Let_def)
  have "plains hh" by (simp add: hh_def)
  then have "\<forall>x \<in> set (rev (hh @ crlf)). \<not> (=) (CHR ''*'') x" by (auto simp: list_all_iff plain_def crlf_def)
  from index_where_append [OF this, of "CHR ''*''" "rev (CHR ''$'' # xs)"]
  have "str_rfind (CHR ''$'' # xs @ CHR ''*'' # hh @ crlf) (CHR ''*'') = Suc (length xs)"
    using len by (simp add: str_rfind_def crlf_def)
  moreover have "sz_add (Suc (length xs)) 1 = Suc (Suc (length xs))" using assms(2) by (simp add: sz_add_def)
  moreover have "str_substr (CHR ''$'' # xs @ CHR ''*'' # hh @ crlf) (Suc (Suc (length xs))) 2 = Ret hh"
    using len by (simp add: str_substr_def)
  moreover have "stoi hh 16 = Ret (checksum_loop 0 xs)"
    using stoi_pad0 [of 16 ?n 2 False] c(3) n(2) hh by (simp add: INT32_MAX_def)
  ultimately show "checksum_ok (CHR ''$'' # xs @ CHR ''*'' # hh @ crlf) = Ret True"
    using c(1) [of "length (CHR ''$'' # xs @ CHR ''*'' # hh @ crlf)" "hh @ crlf"]
    by (simp add: checksum_ok_def)
qed

text \<open>Without a bound on the body: if what was printed is short, nothing was cut off.\<close>

lemma printed_sentence:
  assumes "plains xs" "m_processed (finishSentence (print_append (CHR ''$'' # xs @ ''*'') p)) = m_processed p @ s" "length s < 4000"
  shows "checksum_ok s = Ret True"
proof (cases "length xs < 4000")
  case True
  then show ?thesis using finished_sentence(1) [OF assms(1) True, of p] finished_sentence(2) [OF assms(1) True] assms(2) by simp
next
  case False
  then have "4000 \<le> length s"
    using assms(2) by (simp add: finishSentence_def print_append_def snprintf_def BUFFER_SIZE_def Let_def) (drule sym, simp)
  then show ?thesis using assms(3) by simp
qed

lemma finishSentence_appends:
  "\<exists>s. m_processed (finishSentence (print_append x p)) = m_processed p @ s"
  by (simp add: finishSentence_def print_append_def Let_def)

lemma two_sentences:
  assumes "plains xs" "plains ys" "m_processed p = []"
    and "q = finishSentence (print_append (CHR ''$'' # xs @ ''*'') p)"
    and "r = finishSentence (print_append (CHR ''$'' # ys @ ''*'') q)" "length (m_processed r) < 4000"
  shows "\<exists>s t. m_processed r = s @ t \<and> checksum_ok s = Ret True \<and> checksum_ok t = Ret True"
proof -
  obtain t where t: "m_processed r = m_processed q @ t" using finishSentence_appends assms(5) by metis
  then have "checksum_ok t = Ret True" using printed_sentence [OF assms(2), of q t] assms(5, 6) by simp
  moreover have "checksum_ok (m_processed q) = Ret True"
    using printed_sentence [OF assms(1), of p "m_processed q"] assms(3, 4, 6) t by simp
  ultimately show ?thesis using t by blast
qed

section \<open>The sentences of the processors\<close>

lemma evalPosition_directions:
  "plain (m_directionSN (evalPosition lat lon p))" "plain (m_directionEW (evalPosition lat lon p))"
proof -
  have "plain (CHR ''S'')" "plain (CHR ''N'')" "plain (CHR ''W'')" "plain (CHR ''E'')" by code_simp+
  then show "plain (m_directionSN (evalPosition lat lon p))" "plain (m_directionEW (evalPosition lat lon p))"
    by (simp_all add: evalPosition_def Let_def)
qed

lemma gps_sentences:
  assumes "plain (m_directionSN p)" "plain (m_directionEW p)"
  shows "\<exists>xs. plains xs \<and> appendGPGGA pos utc p = finishSentence (print_append (CHR ''$'' # xs @ ''*'') p)"
    and "\<exists>xs. plains xs \<and> appendGPRMC utc p = finishSentence (print_append (CHR ''$'' # xs @ ''*'') p)"
proof -
  let ?g = "''GPGGA,'' @ fmt_clock utc @ '','' @
        fmt_f True 2 0 (m_degLatitude p) @ fmt_f True 7 4 (m_minLatitude p) @ '','' @ [m_directionSN p] @ '','' @
        fmt_f True 3 0 (m_degLongitude p) @ fmt_f True 7 4 (m_minLongitude p) @ '','' @
        [m_directionEW p] @ '',1,'' @ fmt_hhu 2 (gps_nrOfSatellites pos) @ '',1,'' @
        fmt_d (altitude (gps_position pos)) @ '',M,'' @ fmt_f False 0 1 (gps_geoid pos) @ '',M,,''"
  let ?r = "''GPRMC,'' @ fmt_clock utc @ '',A,'' @
        fmt_f True 2 0 (m_degLatitude p) @ fmt_f True 5 2 (m_minLatitude p) @ '','' @ [m_directionSN p] @ '','' @
        fmt_f True 3 0 (m_degLongitude p) @ fmt_f True 5 2 (m_minLongitude p) @ '','' @
        [m_directionEW p] @ '',0,0,'' @ fmt_0d 2 (tm_mday utc) @ fmt_0d 2 (tm_mon utc + 1) @
        fmt_0d 2 (tm_year utc - 100) @ '',001.0,W''"
  have "plains ?g" "plains ?r" using assms by (simp_all add: fmt_clock_def plain_def ascii_def)
  moreover have "appendGPGGA pos utc p = finishSentence (print_append (CHR ''$'' # ?g @ ''*'') p)"
    "appendGPRMC utc p = finishSentence (print_append (CHR ''$'' # ?r @ ''*'') p)"
    by (simp_all add: appendGPGGA_def appendGPRMC_def)
  ultimately show "\<exists>xs. plains xs \<and> appendGPGGA pos utc p = finishSentence (print_append (CHR ''$'' # xs @ ''*'') p)"
    and "\<exists>xs. plains xs \<and> appendGPRMC utc p = finishSentence (print_append (CHR ''$'' # xs @ ''*'') p)"
    by blast+
qed

text \<open>
  Every sentence the GPS processor prints passes the parsers' own checksum test: the text of a position is a GGA and an RMC sentence, and for both the two digits
  behind the star are the checksum, unless the text is so long that the buffer may have cut it.
\<close>

lemma gps_sentences_check:
  assumes "length (m_serialized (fst (GpsProcessor_process utc pos p))) < 4000"
  shows "\<exists>gga rmc. m_serialized (fst (GpsProcessor_process utc pos p)) = gga @ rmc \<and>
    checksum_ok gga = Ret True \<and> checksum_ok rmc = Ret True"
proof -
  let ?p1 = "(evalPosition (latitude (gps_position pos)) (longitude (gps_position pos)) p)\<lparr>m_processed := []\<rparr>"
  let ?p2 = "appendGPGGA pos utc ?p1"
  have dir: "plain (m_directionSN ?p1)" "plain (m_directionEW ?p1)" by (simp_all add: evalPosition_directions)
  then obtain xs where xs: "plains xs" "?p2 = finishSentence (print_append (CHR ''$'' # xs @ ''*'') ?p1)"
    using gps_sentences(1) by blast
  have "m_directionSN ?p2 = m_directionSN ?p1" "m_directionEW ?p2 = m_directionEW ?p1"
    unfolding xs(2) by (simp_all add: finishSentence_def print_append_def Let_def)
  then obtain ys where ys: "plains ys" "appendGPRMC utc ?p2 = finishSentence (print_append (CHR ''$'' # ys @ ''*'') ?p2)"
    using gps_sentences(2) [of ?p2] dir by auto
  have s: "m_serialized (fst (GpsProcessor_process utc pos p)) = m_processed (appendGPRMC utc ?p2)"
    by (simp add: GpsProcessor_process_def Let_def)
  have "m_processed ?p1 = []" by simp
  then show ?thesis using two_sentences [OF xs(1) ys(1) _ xs(2) ys(2)] assms unfolding s by blast
qed

lemma plains_c_str: "plains s \<Longrightarrow> plains (c_str s)"
  by (auto simp: c_str_def list_all_iff dest: set_takeWhileD)

lemma aircraft_sentences:
  assumes "plains (ac_id a)"
  shows "appendPFLAU a p = Ret q \<Longrightarrow> \<exists>xs. plains xs \<and> q = finishSentence (print_append (CHR ''$'' # xs @ ''*'') p)"
    and "appendPFLAA a p = Ret q \<Longrightarrow> \<exists>xs. plains xs \<and> q = finishSentence (print_append (CHR ''$'' # xs @ ''*'') p)"
proof -
  note id = plains_c_str [OF assms]
  have body: "\<exists>xs. plains xs \<and> s = CHR ''$'' # xs @ ''*''"
    if "s = CHR ''$'' # ys @ ''*''" "plains ys" for s ys using that by blast
  show "\<exists>xs. plains xs \<and> q = finishSentence (print_append (CHR ''$'' # xs @ ''*'') p)" if u: "appendPFLAU a p = Ret q"
  proof -
    obtain b where q: "q = finishSentence (print_append (''$PFLAU,,,,1,0,'' @ fmt_d b @ '',0,'' @ fmt_d (m_relVertical p) @
        '','' @ fmt_d (m_distance p) @ '','' @ c_str (ac_id a) @ ''*'') p)"
      using u by (auto simp: appendPFLAU_def elim!: obind_RetE)
    let ?xs = "''PFLAU,,,,1,0,'' @ fmt_d b @ '',0,'' @ fmt_d (m_relVertical p) @ '','' @ fmt_d (m_distance p) @ '','' @ c_str (ac_id a)"
    have "plains ?xs" using id by (simp add: plain_def ascii_def)
    moreover have "q = finishSentence (print_append (CHR ''$'' # ?xs @ ''*'') p)" using q by simp
    ultimately show ?thesis by blast
  qed
  show "\<exists>xs. plains xs \<and> q = finishSentence (print_append (CHR ''$'' # xs @ ''*'') p)" if u: "appendPFLAA a p = Ret q"
  proof -
    obtain s where s: "q = finishSentence (print_append s p)"
        "pflaa_full a p = Ret s \<or> s = pflaa_short a p"
      using u by (auto simp: appendPFLAA_def elim!: obind_RetE split: if_splits)
    from s(2) have "\<exists>xs. plains xs \<and> s = CHR ''$'' # xs @ ''*''"
    proof
      assume "pflaa_full a p = Ret s"
      then obtain h v where "s = CHR ''$'' # (''PFLAA,0,'' @ fmt_d (m_relNorth p) @ '','' @ fmt_d (m_relEast p) @ '','' @
            fmt_d (m_relVertical p) @ '','' @ fmt_hhu 0 (ac_idType a) @ '','' @ c_str (ac_id a) @
            '','' @ fmt_0d 3 h @ '',,'' @ fmt_d v @ '','' @
            fmt_f False 3 1 (climbRate (ac_movement a)) @ '','' @ fmt_hhX (ac_aircraftType a)) @ ''*''"
        by (auto simp: pflaa_full_def elim!: obind_RetE)
      then show ?thesis by (rule body) (use id in \<open>simp add: plain_def ascii_def\<close>)
    next
      assume "s = pflaa_short a p"
      then have "s = CHR ''$'' # (''PFLAA,0,'' @ fmt_d (m_relNorth p) @ '','' @ fmt_d (m_relEast p) @ '','' @
          fmt_d (m_relVertical p) @ '',1,'' @ c_str (ac_id a) @ '',,,,,'' @ fmt_hhX (ac_aircraftType a)) @ ''*''"
        by (simp add: pflaa_short_def)
      then show ?thesis by (rule body) (use id in \<open>simp add: plain_def ascii_def\<close>)
    qed
    then show ?thesis using s(1) by blast
  qed
qed

lemma finishSentence_keeps:
  "m_distance (finishSentence (print_append s p)) = m_distance p"
  "m_maxDistance (finishSentence (print_append s p)) = m_maxDistance p"
  by (simp_all add: finishSentence_def print_append_def Let_def)


section \<open>An aircraft at the reference position\<close>

lemma fin_round_0: "fin_round b 0 = Fin b 0"
  by (simp add: fin_round_small)

lemma small_lits:
  "dlit 0 = Fin False 0" "dlit 1 = Fin False 1" "dlit 2 = Fin False 2" "dlit 60 = Fin False 60" "dlit 180 = Fin False 180"
  "dlit 360 = Fin False 360" "dlit 6371000 = Fin False 6371000"
  by (simp_all add: dlit_def fin_round_small)

lemma PI_positive: "\<exists>c > 0. PI = Fin False c"
proof -
  have "real 2 \<le> fl64 pi" using pi_ge_two by (intro fl64_ge_int) simp_all
  moreover have "PI = Fin False (fl64 pi)" using pi_ge_two pi_less_4 by (simp add: PI_def fin_round_small)
  ultimately show ?thesis by (intro exI [of _ "fl64 pi"]) simp
qed

lemma angles_0: "radian (Fin False 0) = Fin False 0" "degree_of (Fin False 0) = Fin False 0"
proof -
  obtain c where c: "PI = Fin False c" "c > 0" using PI_positive by blast
  then show "radian (Fin False 0) = Fin False 0" "degree_of (Fin False 0) = Fin False 0"
    unfolding radian_def degree_of_def c(1) small_lits by (simp_all add: sgnd_def fin_round_0)
qed

lemma doubleToInt_0: "doubleToInt (Fin False 0) = Ret 0"
proof -
  have h: "fl64 (1 / 2) = 1 / 2" using fl64_exact [of 1 "- 1"] by simp
  have l: "dlit (1 / 2) = Fin False (1 / 2)" by (simp add: dlit_def fin_round_small h)
  then have "d_add (Fin False 0) (dlit 0.5) = Fin False (1 / 2)" using h by (simp add: sgnd_def fin_round_small)
  then show ?thesis
    by (simp add: doubleToInt_def small_lits d_le_def sgnd_def i32_def in_i32_def INT32_MIN_def INT32_MAX_def)
qed

lemma length_finish: "length (m_processed (finishSentence (print_append x p))) \<le> length (m_processed p) + length x + 10"
proof -
  have x: "length (fmt_0x 2 i) \<le> 8" for i
  proof -
    have "nat (i mod 2 ^ 32) < 16 ^ 8" by (simp add: nat_less_iff)
    then have "length (nat_digits False 16 (nat (i mod 2 ^ 32))) \<le> 8" by (intro length_nat_digits) simp_all
    then show ?thesis by (simp add: fmt_0x_def pad0_def)
  qed
  have s: "length (snprintf n y) \<le> length y" for n y by (simp add: snprintf_def)
  let ?h = "fmt_0x 2 (checksum (m_buffer (print_append x p)) BUFFER_SIZE) @ crlf"
  have "m_processed (finishSentence (print_append x p)) = (m_processed p @ snprintf BUFFER_SIZE x) @ snprintf BUFFER_SIZE ?h"
    unfolding finishSentence_def by (simp add: print_append_def Let_def)
  moreover have "length ?h \<le> 10" using x by (simp add: crlf_def)
  ultimately show ?thesis using s [of BUFFER_SIZE x] s [of BUFFER_SIZE ?h] by simp
qed

definition near_aircraft :: aircraft where
  "near_aircraft = (Aircraft_new 0)\<lparr>ac_targetType := FLARM, ac_id := ''DDA5BA''\<rparr>"

lemma at_reference:
  "calculateRelPosition near_aircraft (AircraftProcessor_new 1000) = Ret (AircraftProcessor_new 1000)"
  by (simp add: calculateRelPosition_def set_radians_def AircraftProcessor_new_def near_aircraft_def Aircraft_new_def
      Position_zero_def haversine_def rel_bearing_def rel_vertical_def Let_def small_lits angles_0 fin_round_0 doubleToInt_0
      object.defs aircraft.defs Object_new_def d_sub_def sgnd_def half_angle_def pow_fin_def is_odd_int_def fin_round_small
      d_of_int_def i32_def in_i32_def INT32_MIN_def INT32_MAX_def)

definition near_pflau :: aircraftProcessor where
  "near_pflau = finishSentence (print_append
     (''$PFLAU,,,,1,0,'' @ fmt_d 0 @ '',0,'' @ fmt_d 0 @ '','' @ fmt_d 0 @ '','' @ c_str ''DDA5BA'' @ ''*'') (AircraftProcessor_new 1000))"

definition near_pflaa :: aircraftProcessor where
  "near_pflaa = finishSentence (print_append (pflaa_short near_aircraft near_pflau) near_pflau)"

lemma near_process:
  "AircraftProcessor_process near_aircraft (AircraftProcessor_new 1000) =
     Ret (near_aircraft\<lparr>m_serialized := m_processed near_pflaa\<rparr>, near_pflaa\<lparr>m_processed := []\<rparr>)"
proof -
  let ?p = "AircraftProcessor_new 1000"
  have p: "?p\<lparr>m_processed := []\<rparr> = ?p" "m_distance ?p = 0" "m_maxDistance ?p = 1000" "m_relVertical ?p = 0"
    "doubleToInt (m_relBearing ?p) = Ret 0" "\<not> ac_fullInfo near_aircraft" "ac_id near_aircraft = ''DDA5BA''"
    by (simp_all add: AircraftProcessor_new_def small_lits doubleToInt_0 near_aircraft_def Aircraft_new_def object.defs aircraft.defs)
  then show ?thesis
    by (simp add: AircraftProcessor_process_def at_reference appendPFLAU_def appendPFLAA_def near_pflau_def near_pflaa_def Let_def)
qed

lemma near_length: "length (m_processed near_pflaa) < 4000"
proof -
  have "m_relNorth near_pflau = 0" "m_relEast near_pflau = 0" "m_relVertical near_pflau = 0"
    by (simp_all add: near_pflau_def finishSentence_def print_append_def AircraftProcessor_new_def Let_def)
  moreover have "length (fmt_d 0) = 1" "length (c_str ''DDA5BA'') = 6" "length (fmt_hhX (ac_aircraftType near_aircraft)) = 1"
    "ac_id near_aircraft = ''DDA5BA''" by code_simp+
  ultimately have "length (pflaa_short near_aircraft near_pflau) < 100" by (simp add: pflaa_short_def)
  moreover have "length (m_processed near_pflau) < 100"
    unfolding near_pflau_def
    by (rule le_less_trans [OF length_finish])
       (simp add: \<open>length (fmt_d 0) = 1\<close> \<open>length (c_str ''DDA5BA'') = 6\<close> AircraftProcessor_new_def)
  ultimately show ?thesis
    unfolding near_pflaa_def by (intro le_less_trans [OF length_finish]) simp
qed


definition noon :: tm where
  "noon = \<lparr>tm_hour = 12, tm_min = 0, tm_sec = 0, tm_mday = 1, tm_mon = 0, tm_year = 118\<rparr>"

abbreviation origin :: gpsPosition where "origin \<equiv> GpsPosition_at Position_zero (Fin False 0)"

lemma origin_length: "length (m_serialized (fst (GpsProcessor_process noon origin GpsProcessor_new))) < 4000"
proof -
  let ?p = "(evalPosition (Fin False 0) (Fin False 0) GpsProcessor_new)\<lparr>m_processed := []\<rparr>"
  have p: "m_degLatitude ?p = Fin False 0" "m_minLatitude ?p = Fin False 0" "m_degLongitude ?p = Fin False 0"
    "m_minLongitude ?p = Fin False 0"
    by (simp_all add: evalPosition_def small_lits d_sub_def sgnd_def fin_round_0 Let_def)
  have f: "length (fmt_f z w q (Fin False 0)) \<le> max w (q + 2)" for z w q
    by (simp add: fixed_digits_def pad0_def padsp_def dec_def nat_digits.simps rne_def Let_def) arith
  have c: "length (fmt_clock noon) = 6" "length (fmt_hhu 2 (gps_nrOfSatellites origin)) = 2" "length (fmt_d (altitude (gps_position origin))) = 1"
    "length (fmt_0d 2 (tm_mday noon)) = 2" "length (fmt_0d 2 (tm_mon noon + 1)) = 2" "length (fmt_0d 2 (tm_year noon - 100)) = 2"
    "gps_geoid origin = Fin False 0" "latitude (gps_position origin) = Fin False 0" "longitude (gps_position origin) = Fin False 0"
    by code_simp+
  let ?q = "appendGPGGA origin noon ?p"
  have q: "m_degLatitude ?q = Fin False 0" "m_minLatitude ?q = Fin False 0" "m_degLongitude ?q = Fin False 0"
    "m_minLongitude ?q = Fin False 0"
    using p by (simp_all add: appendGPGGA_def finishSentence_def print_append_def Let_def)
  have "length (m_processed ?q) < 200"
    unfolding appendGPGGA_def
    by (rule le_less_trans [OF length_finish])
       (use p c f [of True 2 0] f [of True 7 4] f [of True 3 0] f [of False 0 1] in \<open>simp add: evalPosition_def\<close>)
  then have "length (m_processed (appendGPRMC noon ?q)) < 4000"
    unfolding appendGPRMC_def [of noon ?q]
    by (intro le_less_trans [OF length_finish])
       (use q c f [of True 2 0] f [of True 5 2] f [of True 3 0] in simp)
  then show ?thesis using c(8, 9) by (simp add: GpsProcessor_process_def Let_def)
qed

text \<open>
  South of the equator the printed minutes are wrong: for half a degree south the processor prints one degree and ninety minutes.
\<close>

lemma evalPosition_south:
  "m_directionSN (evalPosition (Fin True (1 / 2)) lon p) = CHR ''S'' \<and>
   m_degLatitude (evalPosition (Fin True (1 / 2)) lon p) = Fin False 1 \<and>
   m_minLatitude (evalPosition (Fin True (1 / 2)) lon p) = Fin False 90"
proof -
  have h: "fl64 (3 / 2) = 3 / 2" using fl64_exact [of 3 "- 1"] by simp
  have n: "fl64 90 = 90" using fl64_exact [of 90 0] by simp
  show ?thesis
    by (simp add: evalPosition_def small_lits d_sub_def sgnd_def h n fin_round_small Let_def)
qed

end
