(* ===== verification/Obj_Clock.thy ===== *)
theory Obj_Clock
  imports Obj_TimeStamp
begin

text \<open>
  \<open>src/object/impl/DateTimeImplBoost.cpp\<close>: the clock that time stamps read. A moment of the system clock is the number of microseconds since the
  start of day zero of the modified Julian calendar; its date and its time of day are the quotient and the remainder by the length of a day.
\<close>

section \<open>Definitions\<close>

type_synonym moment = nat

definition DAY_US :: nat where "DAY_US = 86400000000"

definition DateTimeImplBoost_now :: "moment \<Rightarrow> int" where
  "DateTimeImplBoost_now t = int (t mod DAY_US div 1000)"

definition DateTimeImplBoost_day :: "moment \<Rightarrow> uint32" where
  "DateTimeImplBoost_day t = of_nat (t div DAY_US)"

text \<open>The constructor reads the day first and the time of day last, at two moments.\<close>

definition TimeStamp_at :: "moment \<Rightarrow> moment \<Rightarrow> string \<Rightarrow> ts_format \<Rightarrow> timeStamp outcome" where
  "TimeStamp_at t1 t2 value format = TimeStamp_new (DateTimeImplBoost_day t1) (DateTimeImplBoost_now t2) value format"

text \<open>The time of day of a second, counted from day zero, as the feeds print it.\<close>

definition hhmmss :: "nat \<Rightarrow> string" where
  "hhmmss s = pad0 2 (dec (s div 3600 mod 24)) @ pad0 2 (dec (s div 60 mod 60)) @ pad0 2 (dec (s mod 60))"

section \<open>Reading the clock\<close>

lemma now_bounds: "0 \<le> DateTimeImplBoost_now t" "DateTimeImplBoost_now t < 86400000"
proof -
  have "t mod DAY_US < DAY_US" by (simp add: DAY_US_def)
  then have "t mod DAY_US div 1000 < 86400000" by (simp add: DAY_US_def div_less_iff_less_mult)
  then show "0 \<le> DateTimeImplBoost_now t" "DateTimeImplBoost_now t < 86400000"
    unfolding DateTimeImplBoost_now_def by linarith+
qed

lemma moment_ms: "int (t div 1000) = int (t div DAY_US) * 86400000 + DateTimeImplBoost_now t"
proof -
  have "t = (t div DAY_US) * 86400000 * 1000 + t mod DAY_US" by (simp add: DAY_US_def)
  then have "t div 1000 = ((t div DAY_US) * 86400000 * 1000 + t mod DAY_US) div 1000" by simp
  also have "\<dots> = (t div DAY_US) * 86400000 + t mod DAY_US div 1000" by simp
  finally show ?thesis by (simp add: DateTimeImplBoost_now_def)
qed

lemma day_uint: "t div DAY_US < 2 ^ 32 \<Longrightarrow> uint (DateTimeImplBoost_day t) = int (t div DAY_US)"
  by (simp add: DateTimeImplBoost_day_def unsigned_of_nat take_bit_nat_eq_self)

lemma hhmmss_ms:
  "int (s div 3600 mod 24) * 3600000 + int (s div 60 mod 60) * 60000 + int (s mod 60) * 1000 = int (s mod 86400) * 1000"
proof -
  have "s mod 86400 = 3600 * (s div 3600 mod 24) + s mod 3600" using mod_mult2_eq [of s 3600 24] by simp
  moreover have "s mod 3600 = 60 * (s div 60 mod 60) + s mod 60" using mod_mult2_eq [of s 60 60] by simp
  ultimately show ?thesis by simp
qed

lemma hhmmss_read:
  "TimeStamp_new day now (hhmmss s) HHMMSS =
     Ret (TimeStamp (int (s mod 86400) * 1000) (if now \<le> int (s mod 86400) * 1000 then day - 1 else day))"
proof -
  have "TimeStamp_new day now (hhmmss s) HHMMSS =
      Ret (let v = int (s div 3600 mod 24) * 3600000 + int (s div 60 mod 60) * 60000 + int (s mod 60) * 1000
           in TimeStamp v (if now \<le> v then day - 1 else day))"
    unfolding hhmmss_def by (rule TimeStamp_new_roundtrip) simp_all
  then show ?thesis by (simp add: hhmmss_ms Let_def)
qed

text \<open>
  The stamp of a report, as far as the clock is concerned: the report's time of day on the day the clock showed, or on the day before.
\<close>

lemma stamp_ms:
  assumes "0 < t1 div DAY_US" "t1 div DAY_US < 2 ^ 32"
  obtains d where "TimeStamp_at t1 t2 (hhmmss s) HHMMSS = Ret d"
    "abs_ms d = (int (t1 div DAY_US) - (if DateTimeImplBoost_now t2 \<le> int (s mod 86400) * 1000 then 1 else 0)) * 86400000 + int (s mod 86400) * 1000"
proof -
  have "0 < DateTimeImplBoost_day t1" using day_uint [OF assms(2)] assms(1) by (simp add: word_less_def)
  then have "uint (DateTimeImplBoost_day t1 - 1) = int (t1 div DAY_US) - 1" using day_uint [OF assms(2)] by uint_arith
  then show thesis
    using day_uint [OF assms(2)]
    by (intro that [of "TimeStamp (int (s mod 86400) * 1000) (if DateTimeImplBoost_now t2 \<le> int (s mod 86400) * 1000
          then DateTimeImplBoost_day t1 - 1 else DateTimeImplBoost_day t1)"])
       (simp_all add: TimeStamp_at_def hhmmss_read abs_ms_def)
qed

lemma second_ms: "int s * 1000 = int (s div 86400) * 86400000 + int (s mod 86400) * 1000"
  using mult_div_mod_eq [of 86400 s] by linarith

text \<open>The day of a second within the 24 hours before a moment.\<close>

lemma recent_day:
  assumes "1000 * s < t div 1000" "t div 1000 \<le> 1000 * s + 86400000"
  shows "1000 * int s = (int (t div DAY_US) - (if DateTimeImplBoost_now t \<le> int (s mod 86400) * 1000 then 1 else 0)) * 86400000 +
    int (s mod 86400) * 1000"
proof -
  let ?D = "int (t div DAY_US)" and ?v = "int (s mod 86400) * 1000" and ?n = "DateTimeImplBoost_now t" and ?e = "int (s div 86400)"
  have "int (1000 * s) < int (t div 1000)" "int (t div 1000) \<le> int (1000 * s + 86400000)" using assms by linarith+
  then have "?e * 86400000 + ?v < ?D * 86400000 + ?n" "?D * 86400000 + ?n \<le> ?e * 86400000 + ?v + 86400000"
    using second_ms [of s] moment_ms [of t] by simp_all
  moreover have "0 \<le> ?v" "?v < 86400000" "0 \<le> ?n" "?n < 86400000" using now_bounds [of t] by auto
  ultimately have "?e = ?D - (if ?n \<le> ?v then 1 else 0)" by (auto split: if_splits)
  then show ?thesis using second_ms [of s] by simp
qed

section \<open>Properties\<close>

text \<open>
  C20: The day a report lacks is recovered exactly: a report only carries a time of day, and whenever it was sent within the last 24 hours, the stamp it gets
  is the second at which it was sent, also if this second belongs to the day before, provided that no midnight lies between the two readings of the clock.
\<close>

theorem report_dated_exactly:
  assumes "t1 div DAY_US = t2 div DAY_US" "0 < t2 div DAY_US" "t2 div DAY_US < 2 ^ 32"
    and "1000 * s < t2 div 1000" "t2 div 1000 \<le> 1000 * s + 86400000"
  shows "\<exists>d. TimeStamp_at t1 t2 (hhmmss s) HHMMSS = Ret d \<and> abs_ms d = 1000 * int s"
proof -
  obtain d where "TimeStamp_at t1 t2 (hhmmss s) HHMMSS = Ret d"
    "abs_ms d = (int (t2 div DAY_US) - (if DateTimeImplBoost_now t2 \<le> int (s mod 86400) * 1000 then 1 else 0)) * 86400000 + int (s mod 86400) * 1000"
    using stamp_ms [of t1 t2 s] assms(1-3) by metis
  then show ?thesis using recent_day [OF assms(4, 5)] by simp
qed

theorem report_dated_exactly_witness:
  "\<exists>d. TimeStamp_at (58000 * DAY_US + 5000000) (58000 * DAY_US + 5000001) (hhmmss (58000 * 86400 - 10)) HHMMSS = Ret d \<and>
     abs_ms d = 1000 * int (58000 * 86400 - 10)"
  by (rule report_dated_exactly) (simp_all add: DAY_US_def)

text \<open>
  C27: The clock is read twice, and a midnight between the two readings moves the stamp: the day is the one that has just ended, but the time is compared with
  the first moments of the next one, so that every report of the last 24 hours is dated a day before it was sent.
\<close>

theorem midnight_dates_back:
  assumes "t2 div DAY_US = Suc (t1 div DAY_US)" "0 < t1 div DAY_US" "t1 div DAY_US < 2 ^ 32"
    and "1000 * s < t2 div 1000" "t2 div 1000 \<le> 1000 * s + 86400000"
  shows "\<exists>d. TimeStamp_at t1 t2 (hhmmss s) HHMMSS = Ret d \<and> abs_ms d = 1000 * int s - 86400000"
proof -
  obtain d where "TimeStamp_at t1 t2 (hhmmss s) HHMMSS = Ret d"
    "abs_ms d = (int (t1 div DAY_US) - (if DateTimeImplBoost_now t2 \<le> int (s mod 86400) * 1000 then 1 else 0)) * 86400000 + int (s mod 86400) * 1000"
    using stamp_ms [OF assms(2, 3)] by metis
  then show ?thesis using recent_day [OF assms(4, 5)] assms(1) by (simp add: algebra_simps)
qed

theorem midnight_dates_back_witness:
  "\<exists>d. TimeStamp_at (58001 * DAY_US - 1) (58001 * DAY_US) (hhmmss (58001 * 86400 - 1)) HHMMSS = Ret d \<and>
     abs_ms d = 1000 * int (58001 * 86400 - 1) - 86400000"
  by (rule midnight_dates_back) (simp_all add: DAY_US_def)

end
