(* ===== verification/Feed_SbsUndefined.thy ===== *)
theory Feed_SbsUndefined
  imports Feed_ParserTotal
begin

text \<open>
  The undefined behaviour an SBS line can cause: the altitude is a floating-point number of any size, and its conversion is not checked.
\<close>

section \<open>Altitudes out of range\<close>

text \<open>The conversion to an integer is undefined for large values, also for the infinities they round to.\<close>

lemma round_large:
  assumes "3000000000 \<le> u"
  shows "d_to_i32 (fin_round z (sgnd neg u)) = UB"
proof -
  have "of_nat 3000000000 \<le> fl64 u" using assms by (intro fl64_ge_int) simp_all
  then have "3000000000 \<le> \<lfloor>fl64 u\<rfloor>" by (simp add: le_floor_iff)
  then show ?thesis using assms by (cases neg) (auto simp: fin_round_def sgnd_def Let_def i32_def in_i32_iff)
qed

lemma doubleToInt_large: "3000000000 \<le> w \<Longrightarrow> doubleToInt (Fin neg w) = UB"
  using round_large [of "w + 1 / 2" _ neg] by (auto simp: doubleToInt_def d_le_def d_sub_def sgnd_def)

lemma doubleToInt_Inf: "doubleToInt (Inf neg) = UB"
  by (simp add: doubleToInt_def d_le_def d_sub_def)

lemma feet_large:
  assumes "10000000000 \<le> v"
  shows "doubleToInt (d_mul (Fin neg v) FEET_2_M) = UB"
proof -
  define r where "r = fl64 (3048 / 10000)"
  have feet: "FEET_2_M = Fin False r" by (simp add: FEET_2_M_def dlit_def fin_round_small r_def)
  have err: "\<bar>r - 3048 / 10000\<bar> \<le> 2 powi ulp_exp (3048 / 10000) / 2" unfolding r_def by (rule fl64_error)
  moreover have "ulp_exp (3048 / 10000) \<le> - 50"
  proof -
    have "ilog2 (3048 / 10000) < 0" by (rule ilog2_lessI) simp_all
    then show ?thesis by (simp add: ulp_exp_def)
  qed
  then have "(2::real) powi ulp_exp (3048 / 10000) \<le> 2 powi - 50" by (rule powi_le)
  then have "(2::real) powi ulp_exp (3048 / 10000) \<le> 1 / 1000" by (simp add: power_int_minus)
  ultimately have "3 / 10 \<le> r" by linarith
  then have "10000000000 * (3 / 10) \<le> v * r" using assms by (intro mult_mono) simp_all
  then have prod: "3000000000 \<le> v * r" by simp
  then have "of_nat 3000000000 \<le> fl64 (v * r)" by (intro fl64_ge_int) simp_all
  then have "3000000000 \<le> fl64 (v * r)" by simp
  moreover have "d_mul (Fin neg v) FEET_2_M = (if DBL_MAX < fl64 (v * r) then Inf neg else Fin neg (fl64 (v * r)))"
    using prod by (simp add: feet fin_round_def sgnd_def)
  ultimately show ?thesis using doubleToInt_large doubleToInt_Inf by presburger
qed

lemma sbs_fields_altitude:
  assumes "10 \<le> length fs" "TimeStamp_new day now (fs ! 5) HH_MM_SS_FFF = Ret t"
    and "obind (stod (fs ! 9)) (\<lambda>v. doubleToInt (d_mul v FEET_2_M)) = UB"
  shows "fst (sbs_fields day now 2 fs (p, a)) = Inr UB"
proof -
  from assms(1) obtain f2 f3 f4 f5 f6 f7 f8 f9 f10 f11 fs' where
    fs: "fs = f2 # f3 # f4 # f5 # f6 # f7 # f8 # f9 # f10 # f11 # fs'"
    by (auto simp: Suc_le_length_iff numeral_eq_Suc)
  then show ?thesis using assms(2, 3) by (simp add: sbs_parseField_def Let_def)
qed

text \<open>
  C31: An altitude that is too large is not refused: on an SBS line with a readable time and an altitude of ten billion feet or more, or of as much below zero,
  \<open>unpack\<close> converts a number that the integer type cannot hold, which is undefined behaviour.
\<close>

theorem sbs_altitude_undefined:
  assumes "length s < npos" "s ! 4 = CHR ''3''" "10 \<le> length (comma_fields (drop 6 s))"
    and "TimeStamp_new day now (comma_fields (drop 6 s) ! 5) HH_MM_SS_FFF = Ret t"
    and "stod (comma_fields (drop 6 s) ! 9) = Ret (Fin neg v)" "10000000000 \<le> v"
  shows "fst (SbsParser_unpack pos0 maxHeight day now s a) = UB"
proof -
  have "fst (sbs_fields day now 2 (comma_fields (drop 6 s)) (pos0, a)) = Inr UB"
    using assms(5) feet_large [OF assms(6), of neg] by (intro sbs_fields_altitude [OF assms(3, 4)]) simp
  moreover have "comma_fields (drop 6 s) \<noteq> []" using assms(3) by auto
  ultimately show ?thesis
    using assms(2) by (cases "sbs_fields day now 2 (comma_fields (drop 6 s)) (pos0, a)")
      (auto simp: SbsParser_unpack_guard [OF assms(1)])
qed

theorem sbs_altitude_undefined_witness:
  "fst (SbsParser_unpack Position_zero 10000 58000 80000000
     ''MSG,3,0,0,AAAAAA,0,D,20:11:30.772,D,T,,99999999999,,,49,8,,,,,,0'' (Aircraft_new 1)) = UB"
  (is "fst (SbsParser_unpack _ _ _ _ ?s _) = _")
proof (rule sbs_altitude_undefined)
  have fields: "comma_fields (drop 6 ?s) =
      [''0'', ''0'', ''AAAAAA'', ''0'', ''D'', ''20:11:30.772'', ''D'', ''T'', [], ''99999999999'', [], [], ''49'', ''8'', [], [], [], [], []]"
    by code_simp
  have "num_of 10 ''99999999999'' = 99999999999" "list_all (is_digit 10) ''99999999999''" by code_simp+
  then have num: "stod ''99999999999'' = Ret (Fin False 99999999999)"
    using stod_decimal [of "''99999999999''" "[]"] mag_round_mid [of 99999999999 False] by (simp add: decimal_def)
  show "TimeStamp_new 58000 80000000 (comma_fields (drop 6 ?s) ! 5) HH_MM_SS_FFF = Ret (TimeStamp 72690772 58000)"
    unfolding fields by code_simp
  show "stod (comma_fields (drop 6 ?s) ! 9) = Ret (Fin False 99999999999)" unfolding fields using num by simp
  show "10 \<le> length (comma_fields (drop 6 ?s))" unfolding fields by simp
qed (simp_all add: npos_def)

end
