(* ===== verification/Data_ProcessDefined.thy ===== *)
theory Data_ProcessDefined
  imports Data_AircraftSpec Feed_ParserTotal
begin

text \<open>
  The floating-point computation of \<open>AircraftProcessor\<close> stays in range: bounds on the magnitudes of the intermediate results, from which it follows that
  no conversion to an integer is undefined as long as the aircraft is in the same part of the world as the receiver.
\<close>

section \<open>Bounds on magnitudes\<close>

fun mag_le :: "real \<Rightarrow> double \<Rightarrow> bool" where
  "mag_le B (Fin s m) \<longleftrightarrow> 0 \<le> m \<and> m \<le> B"
| "mag_le B _ \<longleftrightarrow> False"

fun pos_le :: "real \<Rightarrow> double \<Rightarrow> bool" where
  "pos_le B (Fin s m) \<longleftrightarrow> \<not> s \<and> 0 \<le> m \<and> m \<le> B"
| "pos_le B _ \<longleftrightarrow> False"

lemma mag_le_iff: "mag_le B x \<longleftrightarrow> (\<exists>s m. x = Fin s m \<and> 0 \<le> m \<and> m \<le> B)"
  by (cases x) auto

lemma pos_le_iff: "pos_le B x \<longleftrightarrow> (\<exists>m. x = Fin False m \<and> 0 \<le> m \<and> m \<le> B)"
  by (cases x) auto

text \<open>The bounds in use are multiples of \<open>1/1024\<close>, which rounding does not cross.\<close>

definition bound :: "real \<Rightarrow> bool" where
  "bound B \<longleftrightarrow> (\<exists>n. B * 1024 = real n \<and> n \<le> 2 ^ 53)"

lemma bound_I: "B * 1024 = real n \<Longrightarrow> n \<le> 2 ^ 53 \<Longrightarrow> bound B"
  by (auto simp: bound_def)

lemma bound_nat: "n \<le> 8796093022208 \<Longrightarrow> bound (real n)"
  by (rule bound_I [of _ "n * 1024"]) simp_all

lemma bound_numeral: "numeral k \<le> (8796093022208 :: nat) \<Longrightarrow> bound (numeral k)"
  using bound_nat [of "numeral k"] by simp

lemma bound_1: "bound 1"
  by (rule bound_I [of _ 1024]) simp_all

lemma bound_sixteenths: "bound (11 / 8)" "bound (11 / 16)" "bound (1 / 2)"
  by (rule bound_I [of _ 1408] bound_I [of _ 704] bound_I [of _ 512]; simp)+

lemma fl64_le_bound:
  assumes "0 \<le> m" "m \<le> B" "bound B"
  shows "fl64 m \<le> B"
proof -
  obtain n where n: "B * 1024 = real n" "n \<le> 2 ^ 53" using assms(3) by (auto simp: bound_def)
  then have B: "B = of_nat n * 2 powi - 10" by (simp add: power_int_minus field_simps)
  have "fl64 B = B" unfolding B using n(2) by (intro fl64_exact) simp_all
  then show ?thesis using fl64_mono [OF assms(1, 2)] by simp
qed

lemma bound_le:
  assumes "bound B"
  shows "B \<le> 2 ^ 53"
proof -
  obtain n where n: "B * 1024 = real n" "n \<le> 2 ^ 53" using assms by (auto simp: bound_def)
  then have "B * 1024 \<le> 2 ^ 53" by (metis of_nat_le_iff of_nat_numeral of_nat_power)
  then show ?thesis by simp
qed

lemma pos_mag: "pos_le B x \<Longrightarrow> mag_le B x"
  by (auto simp: pos_le_iff mag_le_iff)

lemma mag_mono: "mag_le A x \<Longrightarrow> A \<le> B \<Longrightarrow> mag_le B x"
  by (fastforce simp: mag_le_iff)

lemma mag_round:
  assumes "\<bar>v\<bar> \<le> B" "bound B"
  shows "mag_le B (fin_round z v)"
proof -
  have "fin_round z v = Fin (if v = 0 then z else v < 0) (fl64 \<bar>v\<bar>)"
    using assms bound_le by (intro fin_round_small) fastforce
  then show ?thesis using fl64_le_bound [OF _ assms] fl64_nonneg [of "\<bar>v\<bar>"] by (auto simp: mag_le_iff)
qed

lemma pos_round:
  assumes "0 \<le> v" "v \<le> B" "bound B"
  shows "pos_le B (fin_round False v)"
proof -
  have "fin_round False v = Fin False (fl64 v)" using assms bound_le [OF assms(3)] by (subst fin_round_small) auto
  then show ?thesis using fl64_le_bound [OF assms] fl64_nonneg [OF assms(1)] by (auto simp: pos_le_iff)
qed

lemma abs_sgnd [simp]: "\<bar>sgnd s m\<bar> = \<bar>m\<bar>"
  by (simp add: sgnd_def)

lemma mag_add: "mag_le A x \<Longrightarrow> mag_le B y \<Longrightarrow> bound (A + B) \<Longrightarrow> mag_le (A + B) (d_add x y)"
  unfolding mag_le_iff [of A x] mag_le_iff [of B y] by (auto intro!: mag_round order_trans [OF abs_triangle_ineq])

lemma mag_neg: "mag_le A x \<Longrightarrow> mag_le A (d_neg x)"
  by (auto simp: mag_le_iff)

lemma mag_sub: "mag_le A x \<Longrightarrow> mag_le B y \<Longrightarrow> bound (A + B) \<Longrightarrow> mag_le (A + B) (d_sub x y)"
  unfolding d_sub_def by (intro mag_add mag_neg)

lemma mag_mul: "mag_le A x \<Longrightarrow> mag_le B y \<Longrightarrow> bound (A * B) \<Longrightarrow> mag_le (A * B) (d_mul x y)"
  unfolding mag_le_iff [of A x] mag_le_iff [of B y] by (auto intro!: mag_round mult_mono simp: abs_mult)

lemma pos_mul: "pos_le A x \<Longrightarrow> pos_le B y \<Longrightarrow> bound (A * B) \<Longrightarrow> pos_le (A * B) (d_mul x y)"
  unfolding pos_le_iff [of A x] pos_le_iff [of B y] by (auto intro!: pos_round mult_mono simp: sgnd_def)

lemma pos_add: "pos_le A x \<Longrightarrow> pos_le B y \<Longrightarrow> bound (A + B) \<Longrightarrow> pos_le (A + B) (d_add x y)"
  unfolding pos_le_iff [of A x] pos_le_iff [of B y] by (auto intro!: pos_round simp: sgnd_def)

text \<open>Division by a number that is at least \<open>c\<close>.\<close>

lemma mag_div:
  assumes "mag_le A x" "y = Fin False r" "c \<le> r" "0 < c" "A / c \<le> B" "bound B"
  shows "mag_le B (d_div x y)"
proof -
  obtain s m where x: "x = Fin s m" "0 \<le> m" "m \<le> A" using assms(1) by (auto simp: mag_le_iff)
  have "m / r \<le> A / c" using x assms by (intro frac_le) simp_all
  then have "\<bar>sgnd s m / r\<bar> \<le> B" using x assms by (simp add: sgnd_def)
  then show ?thesis using assms x by (simp add: sgnd_def [of False] mag_round)
qed

lemma pos_div:
  assumes "pos_le A x" "y = Fin False r" "1 \<le> r" "bound A"
  shows "pos_le A (d_div x y)"
proof -
  obtain m where x: "x = Fin False m" "0 \<le> m" "m \<le> A" using assms(1) by (auto simp: pos_le_iff)
  have "m / r \<le> m / 1" using x assms by (intro divide_left_mono) simp_all
  then have "pos_le A (fin_round False (m / r))" using x assms by (intro pos_round) simp_all
  then show ?thesis using assms x by (simp add: sgnd_def)
qed

lemma mag_sin: "mag_le A x \<Longrightarrow> bound A \<Longrightarrow> mag_le A (d_sin x)"
  unfolding mag_le_iff [of A x] by (auto intro!: mag_round order_trans [OF abs_sin_x_le_abs_x])

lemma mag_sin_1: "mag_le A x \<Longrightarrow> mag_le 1 (d_sin x)"
  unfolding mag_le_iff [of A x] by (auto intro!: mag_round bound_1)

lemma mag_cos_1: "mag_le A x \<Longrightarrow> mag_le 1 (d_cos x)"
  unfolding mag_le_iff [of A x] by (auto intro!: mag_round bound_1)

lemma pos_cos:
  assumes "mag_le (pi / 2) x"
  shows "pos_le 1 (d_cos x)"
proof -
  obtain s m where x: "x = Fin s m" "0 \<le> m" "m \<le> pi / 2" using assms by (auto simp: mag_le_iff)
  then have "0 \<le> cos (sgnd s m)" by (intro cos_ge_zero) (auto simp: sgnd_def)
  then show ?thesis using x by (auto intro!: pos_round bound_1)
qed

lemma pos_sqrt: "pos_le 1 x \<Longrightarrow> pos_le 1 (d_sqrt x)"
  unfolding pos_le_iff [of 1 x] by (auto intro!: pos_round bound_1)

text \<open>The square \<open>std::pow(x, 2.0)\<close> of a number up to \<open>11/16\<close>.\<close>

lemma pos_square:
  assumes "mag_le (11 / 16) x"
  shows "pos_le (1 / 2) (d_pow x (Fin False 2))"
proof -
  obtain s m where x: "x = Fin s m" "0 \<le> m" "m \<le> 11 / 16" using assms by (auto simp: mag_le_iff)
  have "m * m \<le> 11 / 16 * (11 / 16)" using x by (intro mult_mono) simp_all
  then have "pos_le (1 / 2) (fin_round False (m * m))" by (intro pos_round bound_sixteenths) simp_all
  then show ?thesis
    using x by (auto simp: pow_fin_def is_odd_int_def power2_eq_square sgnd_def pos_le_iff)
qed

lemma half_angle_bounds:
  assumes "0 \<le> y" "0 \<le> x"
  shows "0 \<le> half_angle y t x" "half_angle y t x \<le> pi" "\<not> t \<Longrightarrow> half_angle y t x \<le> pi / 2"
proof -
  define a where "a = arctan (y / x)"
  have "0 \<le> a" "a < pi / 2" using assms arctan_ubound by (simp_all add: a_def)
  then show "0 \<le> half_angle y t x" "half_angle y t x \<le> pi" "\<not> t \<Longrightarrow> half_angle y t x \<le> pi / 2"
    using pi_gt_zero unfolding half_angle_def a_def [symmetric] by auto
qed

lemma mag_atan2: "mag_le A y \<Longrightarrow> mag_le B x \<Longrightarrow> mag_le 4 (d_atan2 y x)"
proof -
  assume "mag_le A y" "mag_le B x"
  then obtain s m t n where "y = Fin s m" "0 \<le> m" "x = Fin t n" "0 \<le> n" by (auto simp: mag_le_iff)
  then show ?thesis using half_angle_bounds [of m n t] pi_less_4 by (auto intro!: mag_round bound_numeral)
qed

lemma dlit_bound:
  assumes "0 \<le> v" "v \<le> B" "bound B"
  shows "pos_le B (dlit v)"
  unfolding dlit_def using assms by (rule pos_round)

lemma mag_doubleToInt:
  assumes "mag_le B x" "B \<le> 1000000000"
  obtains i where "doubleToInt x = Ret i" "\<bar>real_of_int i\<bar> \<le> B + 3 / 2"
proof -
  obtain s m where x: "x = Fin s m" "0 \<le> m" "m \<le> B" using assms by (auto simp: mag_le_iff)
  then obtain i where "doubleToInt x = Ret i" "\<bar>of_int i - sgnd s m\<bar> \<le> 3 / 2"
    using doubleToInt_small [of m s] assms by (metis order_trans)
  moreover from this(2) have "\<bar>real_of_int i\<bar> \<le> \<bar>sgnd s m\<bar> + 3 / 2" by linarith
  ultimately show thesis using x by (intro that [of i]) auto
qed

lemma mag_of_int: "\<bar>real_of_int i\<bar> \<le> B \<Longrightarrow> mag_le B (d_of_int i)"
  by (auto simp: mag_le_iff d_of_int_def)

section \<open>Angles\<close>

lemma fl64_close:
  assumes "0 \<le> m" "m \<le> 2048"
  shows "\<bar>fl64 m - m\<bar> \<le> 1 / 1000000000"
proof (cases "m = 0")
  case False
  then have "ilog2 m < 12" using assms by (intro ilog2_lessI) simp_all
  then have "ulp_exp m \<le> - 40" by (simp add: ulp_exp_def)
  then have "(2::real) powi ulp_exp m \<le> 2 powi - 40" by (rule powi_le)
  then have "(2::real) powi ulp_exp m / 2 \<le> 1 / 1000000000" by (simp add: power_int_minus)
  then show ?thesis using fl64_error [of m] by linarith
qed simp

lemma PI_value: obtains P where "PI = Fin False P" "\<bar>P - pi\<bar> \<le> 1 / 1000000000" "1 \<le> P" "P \<le> 4"
proof (rule that [of "fl64 pi"])
  show "PI = Fin False (fl64 pi)" using pi_less_4 by (simp add: PI_def fin_round_small)
  show close: "\<bar>fl64 pi - pi\<bar> \<le> 1 / 1000000000" using pi_less_4 by (intro fl64_close) simp_all
  show "1 \<le> fl64 pi" using close pi_ge_two by linarith
  show "fl64 pi \<le> 4" using pi_less_4 by (intro fl64_le_bound bound_numeral) simp_all
qed

lemma dlit_180: "dlit 180 = Fin False 180" "dlit 360 = Fin False 360" "dlit 2 = Fin False 2" "dlit 1 = Fin False 1" "dlit 6371000 = Fin False 6371000"
  by (simp_all add: dlit_def fin_round_small)

lemma dlit_mag: "mag_le 2 (dlit 2)" "mag_le 6371000 (dlit 6371000)" "mag_le 180 (dlit 180)" "mag_le 360 (dlit 360)"
  by (simp_all add: dlit_180)

text \<open>The conversion to radians is off by less than a millionth.\<close>

lemma radian_value:
  assumes "0 \<le> m" "m \<le> 360"
  obtains w where "radian (Fin s m) = Fin s w" "0 \<le> w" "\<bar>w - m * pi / 180\<bar> \<le> 1 / 1000000"
proof -
  obtain P where P: "PI = Fin False P" "\<bar>P - pi\<bar> \<le> 1 / 1000000000" "1 \<le> P" "P \<le> 4" by (rule PI_value)
  define w1 where "w1 = fl64 (m * P)"
  have mP: "0 \<le> m * P" "m * P \<le> 360 * 4" using assms P by (simp, intro mult_mono) simp_all
  then have w1: "\<bar>w1 - m * P\<bar> \<le> 1 / 1000000000" unfolding w1_def by (intro fl64_close) simp_all
  have "0 \<le> w1" unfolding w1_def using mP(1) by (rule fl64_nonneg)
  define w where "w = fl64 (w1 / 180)"
  have "w1 \<le> 1441" using w1 mP(2) by linarith
  then have w: "\<bar>w - w1 / 180\<bar> \<le> 1 / 1000000000" unfolding w_def using \<open>0 \<le> w1\<close> by (intro fl64_close) simp_all
  have w0: "0 \<le> w" unfolding w_def using \<open>0 \<le> w1\<close> by (intro fl64_nonneg) simp
  have "\<bar>m * P - m * pi\<bar> = m * \<bar>P - pi\<bar>" using assms(1) by (simp add: right_diff_distrib [symmetric] abs_mult)
  also have "\<dots> \<le> 360 * (1 / 1000000000)" using assms P(2) by (intro mult_mono) simp_all
  finally have "\<bar>w - m * pi / 180\<bar> \<le> 1 / 1000000" using w w1 by linarith
  moreover have "sgnd s m * P = sgnd s (m * P)" by (simp add: sgnd_def)
  then have "d_mul (Fin s m) PI = Fin s w1"
    using mP P(3) assms(1) by (auto simp: P(1) fin_round_small w1_def sgnd_def mult_less_0_iff)
  then have "radian (Fin s m) = Fin s w"
    using \<open>0 \<le> w1\<close> \<open>w1 \<le> 1441\<close> by (auto simp: radian_def dlit_180 fin_round_small sgnd_def w_def)
  ultimately show thesis using w0 by (intro that)
qed

lemma radian_diff:
  assumes "mag_le 180 x" "mag_le 180 y" "\<bar>dval x - dval y\<bar> \<le> 60"
  shows "mag_le (11 / 8) (d_sub (radian x) (radian y))"
proof -
  obtain s m t n where x: "x = Fin s m" "0 \<le> m" "m \<le> 180" and y: "y = Fin t n" "0 \<le> n" "n \<le> 180"
    using assms(1, 2) by (auto simp: mag_le_iff)
  obtain w where w: "radian (Fin s m) = Fin s w" "0 \<le> w" "\<bar>w - m * pi / 180\<bar> \<le> 1 / 1000000"
    using x by (auto intro: radian_value [of m s])
  obtain v where v: "radian (Fin t n) = Fin t v" "0 \<le> v" "\<bar>v - n * pi / 180\<bar> \<le> 1 / 1000000"
    using y by (auto intro: radian_value [of n t])
  have "\<bar>sgnd s m - sgnd t n\<bar> * pi \<le> 60 * 4" using assms(3) x y pi_less_4 by (intro mult_mono) simp_all
  moreover have "\<bar>sgnd s m - sgnd t n\<bar> * pi = \<bar>sgnd s (m * pi) - sgnd t (n * pi)\<bar>"
  proof -
    have "\<bar>sgnd s m - sgnd t n\<bar> * pi = \<bar>(sgnd s m - sgnd t n) * pi\<bar>" by (simp add: abs_mult)
    then show ?thesis by (auto simp: sgnd_def algebra_simps)
  qed
  moreover have "\<bar>sgnd s w - sgnd s (m * pi) / 180\<bar> \<le> 1 / 1000000" using w(3) by (cases s) (simp_all add: sgnd_def abs_minus_commute)
  moreover have "\<bar>sgnd t v - sgnd t (n * pi) / 180\<bar> \<le> 1 / 1000000" using v(3) by (cases t) (simp_all add: sgnd_def abs_minus_commute)
  ultimately have "\<bar>sgnd s w - sgnd t v\<bar> \<le> 11 / 8" by linarith
  moreover have "sgnd s w + sgnd (\<not> t) v = sgnd s w - sgnd t v" by (simp add: sgnd_def)
  ultimately show ?thesis by (simp add: x y w v d_sub_def mag_round bound_sixteenths)
qed

lemma radian_lat: "mag_le 89 x \<Longrightarrow> mag_le (pi / 2) (radian x)"
proof -
  assume "mag_le 89 x"
  then obtain s m where x: "x = Fin s m" "0 \<le> m" "m \<le> 89" by (auto simp: mag_le_iff)
  obtain w where w: "radian (Fin s m) = Fin s w" "0 \<le> w" "\<bar>w - m * pi / 180\<bar> \<le> 1 / 1000000"
    using x by (auto intro: radian_value [of m s])
  have "m * pi \<le> 89 * pi" using x by simp
  then have "w \<le> pi / 2" using w(3) pi_ge_two by linarith
  then show ?thesis using x w by simp
qed

lemma radian_mag: "mag_le 360 x \<Longrightarrow> mag_le 9 (radian x)"
proof -
  assume "mag_le 360 x"
  then obtain s m where x: "x = Fin s m" "0 \<le> m" "m \<le> 360" by (auto simp: mag_le_iff)
  obtain w where w: "radian (Fin s m) = Fin s w" "0 \<le> w" "\<bar>w - m * pi / 180\<bar> \<le> 1 / 1000000"
    using x by (auto intro: radian_value [of m s])
  have "m * pi \<le> 360 * 4" using x pi_less_4 by (intro mult_mono) simp_all
  then have "w \<le> 9" using w(3) by linarith
  then show ?thesis using x w by simp
qed

section \<open>The computation\<close>

definition near :: "position \<Rightarrow> position \<Rightarrow> bool" where
  "near p q \<longleftrightarrow>
     mag_le 89 (latitude p) \<and> mag_le 89 (latitude q) \<and> \<bar>dval (latitude p) - dval (latitude q)\<bar> \<le> 60 \<and>
     mag_le 180 (longitude p) \<and> mag_le 180 (longitude q) \<and> \<bar>dval (longitude p) - dval (longitude q)\<bar> \<le> 60"

definition processable :: "position \<Rightarrow> double \<Rightarrow> aircraft \<Rightarrow> bool" where
  "processable pos atmPress a \<longleftrightarrow>
     near (ac_position a) pos \<and> \<bar>altitude (ac_position a)\<bar> \<le> 1000000000 \<and>
     (if ac_targetType a = TRANSPONDER then pos_le 10000 atmPress else \<bar>altitude pos\<bar> \<le> 1000000000) \<and>
     (ac_fullInfo a \<longrightarrow> mag_le 1000000 (heading (ac_movement a)) \<and> mag_le 1000000 (gndSpeed (ac_movement a)))"

lemma haversine_range:
  assumes "near (ac_position a) (m_refPosition p)"
  shows "pos_le 1 (haversine (set_radians a p))"
proof -
  let ?P = "ac_position a" and ?Q = "m_refPosition p"
  have sin2: "pos_le (1 / 2) (d_pow (d_sin (d_div d (dlit 2))) (dlit 2))" if "mag_le (11 / 8) d" for d
  proof -
    have "mag_le (11 / 16) (d_div d (dlit 2))"
      using that by (rule mag_div [of _ _ _ 2 2]) (simp_all add: dlit_180 bound_sixteenths)
    then show ?thesis unfolding dlit_180 using bound_sixteenths(2) by (intro pos_square mag_sin)
  qed
  have lat: "mag_le (11 / 8) (d_sub (radian (latitude ?P)) (radian (latitude ?Q)))"
    and lon: "mag_le (11 / 8) (d_sub (radian (longitude ?P)) (radian (longitude ?Q)))"
    using assms by (auto simp: near_def intro!: radian_diff intro: mag_mono)
  have "pos_le 1 (d_cos (radian (latitude ?P)))" "pos_le 1 (d_cos (radian (latitude ?Q)))"
    using assms by (auto simp: near_def intro!: pos_cos radian_lat)
  then have "pos_le (1 * 1) (d_mul (d_cos (radian (latitude ?Q))) (d_cos (radian (latitude ?P))))"
    by (intro pos_mul) (simp_all add: bound_1)
  note cos = this
  have "pos_le (1 * 1 * (1 / 2)) (d_mul (d_mul (d_cos (radian (latitude ?Q))) (d_cos (radian (latitude ?P))))
      (d_pow (d_sin (d_div (d_sub (radian (longitude ?P)) (radian (longitude ?Q))) (dlit 2))) (dlit 2)))"
    by (rule pos_mul [OF cos sin2 [OF lon]]) (simp add: bound_sixteenths)
  from pos_add [OF sin2 [OF lat] this] show ?thesis by (simp add: haversine_def set_radians_def Let_def bound_1)
qed

lemma distance_defined:
  assumes "pos_le 1 h"
  obtains d where "doubleToInt (d_mul (dlit 6371000) (d_mul (dlit 2) (d_atan2 (d_sqrt h) (d_sqrt (d_sub (dlit 1) h))))) = Ret d"
    "\<bar>real_of_int d\<bar> \<le> 60000000"
proof -
  obtain m where m: "h = Fin False m" "0 \<le> m" "m \<le> 1" using assms by (auto simp: pos_le_iff)
  have "pos_le 1 (d_sub (dlit 1) h)" using m by (auto simp: dlit_180 d_sub_def sgnd_def intro!: pos_round bound_1)
  then have "mag_le 4 (d_atan2 (d_sqrt h) (d_sqrt (d_sub (dlit 1) h)))"
    using assms by (intro mag_atan2 [of 1 _ 1] pos_mag pos_sqrt)
  then have "mag_le (6371000 * (2 * 4)) (d_mul (dlit 6371000) (d_mul (dlit 2) (d_atan2 (d_sqrt h) (d_sqrt (d_sub (dlit 1) h)))))"
    by (rule mag_mul [OF dlit_mag(2) mag_mul [OF dlit_mag(1)]]) (simp_all add: bound_numeral)
  then obtain d where "doubleToInt (d_mul (dlit 6371000) (d_mul (dlit 2) (d_atan2 (d_sqrt h) (d_sqrt (d_sub (dlit 1) h))))) = Ret d"
      "\<bar>real_of_int d\<bar> \<le> 6371000 * (2 * 4) + 3 / 2"
    by (rule mag_doubleToInt) simp_all
  moreover from this(2) have "\<bar>real_of_int d\<bar> \<le> 60000000" by linarith
  ultimately show thesis by (intro that)
qed

lemma bearing_range:
  assumes "near (ac_position a) (m_refPosition p)"
  shows "mag_le 720 (rel_bearing (set_radians a p))"
proof -
  let ?p = "set_radians a p"
  have lat: "mag_le 2 (m_aircraftRadLatitude ?p)" "mag_le 2 (m_refRadLatitude ?p)"
    using assms pi_less_4 by (auto simp: near_def set_radians_def Let_def intro!: mag_mono [OF radian_lat])
  have lon: "mag_le (11 / 8) (d_sub (m_aircraftRadLongitude ?p) (m_refRadLongitude ?p))"
    using assms by (auto simp: near_def set_radians_def Let_def intro!: radian_diff)
  note unit = mag_sin_1 [OF lat(1)] mag_sin_1 [OF lat(2)] mag_cos_1 [OF lat(1)] mag_cos_1 [OF lat(2)] mag_sin_1 [OF lon] mag_cos_1 [OF lon]
  have prod: "mag_le 1 (d_mul x y)" if "mag_le 1 x" "mag_le 1 y" for x y
    using mag_mul [OF that] bound_1 by simp
  have diff: "mag_le (1 + 1) (d_sub x y)" if "mag_le 1 x" "mag_le 1 y" for x y
    using that by (rule mag_sub) (simp add: bound_numeral)
  have "mag_le 4 (d_atan2 (d_mul (d_sin (d_sub (m_aircraftRadLongitude ?p) (m_refRadLongitude ?p))) (d_cos (m_aircraftRadLatitude ?p)))
      (d_sub (d_mul (d_cos (m_refRadLatitude ?p)) (d_sin (m_aircraftRadLatitude ?p)))
        (d_mul (d_mul (d_sin (m_refRadLatitude ?p)) (d_cos (m_aircraftRadLatitude ?p))) (d_cos (d_sub (m_aircraftRadLongitude ?p) (m_refRadLongitude ?p))))))"
    (is "mag_le 4 ?angle")
    using unit by (intro mag_atan2 [of 1 _ "1 + 1"] prod diff)
  then have "mag_le (4 * 180) (d_mul ?angle (dlit 180))" by (rule mag_mul [OF _ dlit_mag(3)]) (simp_all add: bound_numeral)
  moreover obtain P where "PI = Fin False P" "1 \<le> P" by (rule PI_value)
  ultimately have "mag_le 720 (d_div (d_mul ?angle (dlit 180)) PI)" by (rule mag_div) (simp_all add: bound_numeral)
  then show ?thesis by (simp add: rel_bearing_def degree_of_def Let_def)
qed

lemma abs_bearing_range:
  assumes "mag_le 720 r"
  shows "mag_le 9 (radian (d_fmod (d_add r (dlit 360)) (dlit 360)))"
proof -
  have "mag_le (720 + 360) (d_add r (dlit 360))"
    using assms by (rule mag_add) (simp_all add: dlit_180 bound_numeral)
  then obtain s m where m: "d_add r (dlit 360) = Fin s m" "0 \<le> m" by (auto simp: mag_le_iff)
  have "0 \<le> m - 360 * of_int \<lfloor>m / 360\<rfloor>" "m - 360 * of_int \<lfloor>m / 360\<rfloor> \<le> 360" by linarith+
  then show ?thesis using m by (intro radian_mag) (simp add: dlit_180)
qed

lemma offset_defined:
  assumes "mag_le 1 u" "\<bar>real_of_int d\<bar> \<le> 60000000"
  obtains i where "doubleToInt (d_mul u (d_of_int d)) = Ret i"
proof -
  have "mag_le (1 * 60000000) (d_mul u (d_of_int d))"
    using assms by (intro mag_mul mag_of_int) (simp_all add: bound_numeral)
  then show thesis by (rule mag_doubleToInt) (simp_all add: that)
qed

lemma pow_range:
  assumes "pos_le A x" "pos_le 1 y" "y \<noteq> Fin False 0" "y \<noteq> Fin False 1" "1 \<le> A" "bound A"
  shows "pos_le A (d_pow x y)"
proof -
  obtain m e where x: "x = Fin False m" "0 \<le> m" "m \<le> A" and y: "y = Fin False e" "0 < e" "e < 1"
    using assms(1-4) by (auto simp: pos_le_iff order_le_less)
  have "\<lfloor>e\<rfloor> = 0" using y by linarith
  have "m powr e \<le> A"
  proof (cases "m \<le> 1")
    case True
    then have "m powr e \<le> 1 powr e" using x y by (intro powr_mono2) simp_all
    then show ?thesis using assms(5) by simp
  next
    case False
    then have "m powr e \<le> m powr 1" using y by (intro powr_mono) simp_all
    then show ?thesis using False x by simp
  qed
  then have "pos_le A (fin_round False (m powr e))" using assms(6) by (intro pos_round) simp_all
  then show ?thesis using x y assms(5) \<open>\<lfloor>e\<rfloor> = 0\<close> by (auto simp: pow_fin_def sgnd_def)
qed

lemma icaoHeight_defined:
  assumes "pos_le 10000 pressure"
  obtains h where "icaoHeight pressure = Ret h" "\<bar>real_of_int h\<bar> \<le> 1000000000"
proof -
  define c where "c = fl64 (101325 / 100)"
  define e where "e = fl64 (190295 / 1000000)"
  define g where "g = fl64 (65 / 10000)"
  have c: "dlit 1013.25 = Fin False c" "1 \<le> c"
    using fl64_ge_int [of 1 "101325 / 100"] by (simp_all add: dlit_def fin_round_small c_def)
  have close: "\<bar>e - 190295 / 1000000\<bar> \<le> 1 / 1000000000" "\<bar>g - 65 / 10000\<bar> \<le> 1 / 1000000000"
    unfolding e_def g_def by (intro fl64_close; simp)+
  have e: "dlit 0.190295 = Fin False e" by (simp add: dlit_def fin_round_small e_def)
  have e01: "0 < e" "e < 1" using close(1) by linarith+
  have g: "dlit 0.0065 = Fin False g" by (simp add: dlit_def fin_round_small g_def)
  have g0: "1 / 250 \<le> g" using close(2) by linarith
  have k: "mag_le 289 (dlit 288.15)" by (rule pos_mag, rule dlit_bound) (simp_all add: bound_numeral)
  have "pos_le 10000 (d_div pressure (dlit 1013.25))" by (rule pos_div [OF assms c]) (simp add: bound_numeral)
  then have "pos_le 10000 (d_pow (d_div pressure (dlit 1013.25)) (dlit 0.190295))"
    unfolding e using e01 by (intro pow_range) (simp_all add: bound_numeral)
  then have "mag_le (1 + 10000) (d_sub (dlit 1) (d_pow (d_div pressure (dlit 1013.25)) (dlit 0.190295)))"
    by (intro mag_sub pos_mag) (simp_all add: dlit_180 bound_numeral)
  then have "mag_le (289 * (1 + 10000)) (d_mul (dlit 288.15) (d_sub (dlit 1) (d_pow (d_div pressure (dlit 1013.25)) (dlit 0.190295))))"
    by (rule mag_mul [OF k]) (simp add: bound_numeral)
  then have "mag_le 900000000 (d_div (d_mul (dlit 288.15) (d_sub (dlit 1) (d_pow (d_div pressure (dlit 1013.25)) (dlit 0.190295)))) (dlit 0.0065))"
    by (rule mag_div [OF _ g g0]) (simp_all add: bound_numeral)
  then obtain h where "icaoHeight pressure = Ret h" "\<bar>real_of_int h\<bar> \<le> 900000000 + 3 / 2"
    unfolding icaoHeight_def by (rule mag_doubleToInt) simp
  moreover from this(2) have "\<bar>real_of_int h\<bar> \<le> 1000000000" by linarith
  ultimately show thesis by (intro that)
qed

lemma relPosition_defined:
  assumes "processable (m_refPosition p) (m_refAtmPressure p) a"
  shows "\<exists>q. calculateRelPosition a p = Ret q \<and> mag_le 720 (m_relBearing q)"
proof -
  let ?p = "set_radians a p"
  have near: "near (ac_position a) (m_refPosition p)" using assms by (simp add: processable_def)
  obtain d where d: "doubleToInt (d_mul (dlit 6371000) (d_mul (dlit 2)
      (d_atan2 (d_sqrt (haversine ?p)) (d_sqrt (d_sub (dlit 1) (haversine ?p)))))) = Ret d" "\<bar>real_of_int d\<bar> \<le> 60000000"
    using haversine_range [OF near] by (rule distance_defined)
  let ?ab = "radian (d_fmod (d_add (rel_bearing ?p) (dlit 360)) (dlit 360))"
  have ab: "mag_le 9 ?ab" by (intro abs_bearing_range bearing_range near)
  obtain n where n: "doubleToInt (d_mul (d_cos ?ab) (d_of_int d)) = Ret n" using mag_cos_1 [OF ab] d(2) by (rule offset_defined)
  obtain e where e: "doubleToInt (d_mul (d_sin ?ab) (d_of_int d)) = Ret e" using mag_sin_1 [OF ab] d(2) by (rule offset_defined)
  have ref: "m_refAtmPressure ?p = m_refAtmPressure p" "m_refPosition ?p = m_refPosition p" by (simp_all add: set_radians_def Let_def)
  have "\<exists>v. rel_vertical ?p a = Ret v"
  proof (cases "ac_targetType a = TRANSPONDER")
    case True
    then have "pos_le 10000 (m_refAtmPressure p)" using assms by (simp add: processable_def)
    then obtain h where "icaoHeight (m_refAtmPressure p) = Ret h" "\<bar>real_of_int h\<bar> \<le> 1000000000" by (rule icaoHeight_defined)
    then show ?thesis using True assms by (simp add: rel_vertical_def ref processable_def in_i32_iff) linarith
  next
    case False
    then show ?thesis using assms by (simp add: rel_vertical_def ref processable_def in_i32_iff) linarith
  qed
  then show ?thesis
    using d(1) n e bearing_range [OF near] by (auto simp: calculateRelPosition_def Let_def)
qed

lemma processor_defined:
  assumes "processable (m_refPosition p) (m_refAtmPressure p) a"
  shows "\<exists>b q. AircraftProcessor_process a p = Ret (b, q)"
proof -
  obtain p1 where p1: "calculateRelPosition a p = Ret p1" "mag_le 720 (m_relBearing p1)"
    using relPosition_defined [OF assms] by blast
  obtain b where b: "doubleToInt (m_relBearing p1) = Ret b" using p1(2) by (rule mag_doubleToInt) simp
  have full: "\<exists>s. pflaa_full a q = Ret s" if "ac_fullInfo a" for q
  proof -
    have m: "mag_le 1000000 (heading (ac_movement a))" "mag_le 1000000 (gndSpeed (ac_movement a))"
      using assms that by (simp_all add: processable_def)
    obtain hd where "doubleToInt (heading (ac_movement a)) = Ret hd" using m(1) by (rule mag_doubleToInt) simp
    moreover have "mag_le 4 MS_2_KMH" unfolding MS_2_KMH_def by (rule pos_mag, rule dlit_bound) (simp_all add: bound_numeral)
    then have "mag_le (1000000 * 4) (d_mul (gndSpeed (ac_movement a)) MS_2_KMH)"
      using m(2) by (intro mag_mul) (simp_all add: bound_numeral)
    then obtain spd where "doubleToInt (d_mul (gndSpeed (ac_movement a)) MS_2_KMH) = Ret spd" by (rule mag_doubleToInt) simp
    ultimately show ?thesis by (simp add: pflaa_full_def)
  qed
  obtain p2 where p2: "appendPFLAU a (p1\<lparr>m_processed := []\<rparr>) = Ret p2" using b by (simp add: appendPFLAU_def)
  obtain p3 where "appendPFLAA a p2 = Ret p3"
    using full [of p2] by (cases "ac_fullInfo a") (auto simp: appendPFLAA_def)
  then show ?thesis using p1(1) p2 by (simp add: AircraftProcessor_process_def Let_def)
qed

end
