(* ===== verification/Feed_AprsServed.thy ===== *)
theory Feed_AprsServed
  imports Data_ProcessDefined
begin

text \<open>
  From the APRS parser to the processor: the numbers of an accepted report are small enough for all conversions of the processor.
\<close>

section \<open>The numbers of a report\<close>

lemma stod_digits:
  assumes "list_all (is_digit 10) s" "length s = n" "n \<le> 9" "stod s = Ret v"
  shows "pos_le (10 ^ n) v"
proof -
  have "stod [] = Throw Invalid_argument" by code_simp
  then have "s \<noteq> []" using assms(4) by auto
  obtain w where "stod s = Ret (Fin False w)" "0 \<le> w" "w \<le> 10 ^ n"
    by (rule stod_decimal_small [of s "[]"]) (use assms(1-3) \<open>s \<noteq> []\<close> in \<open>auto simp: decimal_def\<close>)
  then show ?thesis using assms(4) by simp
qed

lemma aprs_altitude_range:
  assumes "re_in s_APRS_RE s m" "aprs_position m = Ret pos"
  shows "\<bar>altitude pos\<bar> \<le> 1000002"
proof -
  obtain v i where v: "stod (cap m 8) = Ret v" "doubleToInt (d_mul v FEET_2_M) = Ret i" "altitude pos = i"
    using assms(2) by (auto simp: aprs_position_def elim!: obind_RetE)
  have "stod [] = Throw Invalid_argument" by code_simp
  then have "list_all (is_digit 10) (cap m 8)" "length (cap m 8) = 6" using aprs_altitude [OF assms(1)] v(1) by auto
  then have "pos_le (10 ^ 6) v" using v(1) by (intro stod_digits) simp_all
  then have v6: "mag_le 1000000 v" by (simp add: pos_mag)
  have "mag_le 1 FEET_2_M" unfolding FEET_2_M_def by (intro pos_mag dlit_bound) (simp_all add: bound_1)
  then have "mag_le (1000000 * 1) (d_mul v FEET_2_M)" by (intro mag_mul v6) (simp_all add: bound_numeral)
  then obtain j where "doubleToInt (d_mul v FEET_2_M) = Ret j" "\<bar>real_of_int j\<bar> \<le> 1000000 * 1 + 3 / 2" by (rule mag_doubleToInt) simp
  then show ?thesis using v by simp
qed

lemma aprs_movement_range:
  assumes "re_in s_APRS_RE s m" "aprs_movement m c = Ret mv"
  shows "mag_le 1000000 (heading mv)" "mag_le 1000000 (gndSpeed mv)"
proof -
  obtain h g where v: "stod (cap m 6) = Ret h" "stod (cap m 7) = Ret g" "heading mv = h" "gndSpeed mv = d_mul g KTS_2_MS"
    using assms(2) by (auto simp: aprs_movement_def elim!: obind_RetE)
  have "r = digits 3" if "(i, r) \<in> set (groups s_APRS_RE)" "i = 6 \<or> i = 7" for i r
    using that by (auto simp: s_APRS_RE_def lits_def digits_def)
  then have dig: "cap m i = [] \<or> list_all (is_digit 10) (cap m i) \<and> length (cap m i) = 3" if "i = 6 \<or> i = 7" for i
    using that cap_cases [OF assms(1), of i] re_in_digits by blast
  moreover have "stod [] = Throw Invalid_argument" by code_simp
  ultimately have "list_all (is_digit 10) (cap m 6) \<and> length (cap m 6) = 3" "list_all (is_digit 10) (cap m 7) \<and> length (cap m 7) = 3"
    using v(1, 2) by (metis outcome.distinct(1))+
  then have "pos_le (10 ^ 3) h" "pos_le (10 ^ 3) g" using stod_digits [of "cap m 6" 3 h] stod_digits [of "cap m 7" 3 g] v by simp_all
  then have k: "mag_le 1000 h" "mag_le 1000 g" by (simp_all add: pos_mag)
  have "mag_le 1 KTS_2_MS" unfolding KTS_2_MS_def by (intro pos_mag dlit_bound) (simp_all add: bound_1)
  then have "mag_le (1000 * 1) (d_mul g KTS_2_MS)" by (intro mag_mul k(2)) (simp_all add: bound_numeral)
  then show "mag_le 1000000 (heading mv)" "mag_le 1000000 (gndSpeed mv)" using v k(1) by (auto intro: mag_mono)
qed

text \<open>What the steps of the parser leave in the aircraft.\<close>

lemma aprs_steps_frame:
  "AprsParser_parsePosition maxHeight m a = (Ret True, a1) \<Longrightarrow> \<exists>pos. aprs_position m = Ret pos \<and> ac_position a1 = pos"
  "ac_position (snd (AprsParser_parseTimeStamp day now m a)) = ac_position a"
  "ac_position (snd (AprsParser_parseComment m a)) = ac_position a"
  "AprsParser_parseMovement m c a = (Ret b, a1) \<Longrightarrow> ac_position a1 = ac_position a \<and> (b \<longrightarrow> aprs_movement m c = Ret (ac_movement a1))"
  by (auto simp: AprsParser_parsePosition_def AprsParser_parseTimeStamp_def AprsParser_parseComment_def AprsParser_parseMovement_def
      setting_def andthen_def set_idType_def set_aircraftType_def Let_def split: outcome.splits if_splits)

lemma conj_then_TrueE:
  assumes "conj_then r f = (Ret True, x)"
  obtains s where "r = (Ret True, s)" "f s = (Ret True, x)"
  using assms by (cases r) (auto simp: conj_then_def split: outcome.splits bool.splits)

lemma aprs_accepted:
  assumes "regex_engine re" "AprsParser_unpack re maxHeight day now s a = (Ret True, a')"
  obtains m c where "re_in s_APRS_RE s m" "aprs_position m = Ret (ac_position a')" "ac_targetType a' = FLARM"
    "ac_fullInfo a' \<longrightarrow> aprs_movement m c = Ret (ac_movement a')"
proof -
  obtain m where m: "re s_APRS_RE s = Some m"
    using assms(2) by (auto simp: AprsParser_unpack_def split: if_splits option.splits)
  define G where "G = (\<lambda>c a3. case AprsParser_parseMovement m c a3 of
      (Ret b, a4) \<Rightarrow> (Ret True, a4\<lparr>ac_fullInfo := b, ac_targetType := FLARM\<rparr>) | (r, a4) \<Rightarrow> (r, a4))"
  have "conj_then (AprsParser_parsePosition maxHeight m a) (\<lambda>a1. conj_then (AprsParser_parseTimeStamp day now m a1) (\<lambda>a2.
      (case re s_APRSExtRE (cap m 9) of None \<Rightarrow> (Ret False, a2) | Some c \<Rightarrow> conj_then (AprsParser_parseComment c a2) (G c)))) = (Ret True, a')"
    unfolding G_def using assms(2) m by (simp add: AprsParser_unpack_def split: if_splits)
  then obtain a1 where p1: "AprsParser_parsePosition maxHeight m a = (Ret True, a1)"
    and u1: "conj_then (AprsParser_parseTimeStamp day now m a1) (\<lambda>a2.
      (case re s_APRSExtRE (cap m 9) of None \<Rightarrow> (Ret False, a2) | Some c \<Rightarrow> conj_then (AprsParser_parseComment c a2) (G c))) = (Ret True, a')"
    by (rule conj_then_TrueE)
  obtain a2 c where p2: "AprsParser_parseTimeStamp day now m a1 = (Ret True, a2)" and c: "re s_APRSExtRE (cap m 9) = Some c"
    and u2: "conj_then (AprsParser_parseComment c a2) (G c) = (Ret True, a')"
    using u1 by (rule conj_then_TrueE) (auto split: option.splits)
  obtain a3 where p3: "AprsParser_parseComment c a2 = (Ret True, a3)" and u3: "G c a3 = (Ret True, a')"
    using u2 by (rule conj_then_TrueE)
  obtain r a4 where p4: "AprsParser_parseMovement m c a3 = (r, a4)" by fastforce
  obtain b where "r = Ret b" "a' = a4\<lparr>ac_fullInfo := b, ac_targetType := FLARM\<rparr>" using u3 p4 by (cases r) (auto simp: G_def)
  moreover have "re_in s_APRS_RE s m" using m regex_engine.sound [OF assms(1)] by blast
  ultimately show thesis
    using that [of m c] p1 p2 p3 p4 aprs_steps_frame(1) [of maxHeight m a a1] aprs_steps_frame(2) [of day now m a1]
      aprs_steps_frame(3) [of c a2] aprs_steps_frame(4) [of m c a3 b a4] by simp
qed

section \<open>Property\<close>

text \<open>
  C13: An APRS report that the parser accepts is always processed: if its position and that of the receiver lie between the polar regions and are at most 60
  degrees of latitude and of longitude apart, then no conversion, no sum and no argument of the floating-point computation of the processor is out of range, however
  the numbers are rounded, and the processor returns.
\<close>

theorem aprs_report_processed:
  assumes "regex_engine re" "AprsParser_unpack re maxHeight day now s a = (Ret True, a')"
    and "near (ac_position a') (m_refPosition p)" "\<bar>altitude (m_refPosition p)\<bar> \<le> 1000000000"
  shows "\<exists>b q. AircraftProcessor_process a' p = Ret (b, q)"
proof -
  obtain m c where m: "re_in s_APRS_RE s m" "aprs_position m = Ret (ac_position a')" "ac_targetType a' = FLARM"
    "ac_fullInfo a' \<longrightarrow> aprs_movement m c = Ret (ac_movement a')"
    using assms(1, 2) by (rule aprs_accepted)
  have "\<bar>altitude (ac_position a')\<bar> \<le> 1000002" using m(1, 2) by (rule aprs_altitude_range)
  then show ?thesis
    using m assms(3, 4) aprs_movement_range [OF m(1), of c] by (intro processor_defined) (auto simp: processable_def)
qed

definition equator_report :: string where
  "equator_report = ''F>APRS,q:/165829h0000.00N/00000.00E'000/000/A=000000 id0ADDA5BA +000fpm +0.0rot''"

lemma equator_accepted:
  "\<exists>a'. AprsParser_unpack bt_match 0 58000 80000000 equator_report (Aircraft_new 0) = (Ret True, a') \<and> ac_position a' = Position_zero"
proof -
  let ?m = "[(1, ''165829''), (2, ''0000.00''), (3, ''N''), (4, ''00000.00''), (5, ''E''), (6, ''000''), (7, ''000''), (8, ''000000''),
      (9, ''id0ADDA5BA +000fpm +0.0rot'')]"
  let ?c = "[(1, ''0A''), (2, ''DDA5BA''), (3, ''+000''), (4, ''+0.0'')]"
  have re: "bt_match s_APRS_RE equator_report = Some ?m" by code_simp
  have ext: "bt_match s_APRSExtRE ''id0ADDA5BA +000fpm +0.0rot'' = Some ?c"
    by code_simp
  have num: "stod ''0000.00'' = Ret (Fin False 0)" "stod ''00000.00'' = Ret (Fin False 0)" "stod ''000'' = Ret (Fin False 0)"
    "stod ''000000'' = Ret (Fin False 0)" "stod ''+000'' = Ret (Fin False 0)" "stoi ''0A'' 16 = Ret 10"
    "TimeStamp_new 58000 80000000 ''165829'' HHMMSS = Ret (TimeStamp 61109000 58000)" "dmToDeg (Fin False 0) = Fin False 0"
    "doubleToInt (Fin False 0) = Ret 0" by code_simp+
  obtain r where feet: "FEET_2_M = Fin False r" by (rule FEET_2_M_bound)
  have "d_mul (Fin False 0) FEET_2_M = Fin False 0" unfolding feet by (simp add: sgnd_def fin_round_small)
  then have pos: "aprs_position ?m = Ret Position_zero"
    by (simp add: aprs_position_def parse_angle_def cap_def num signed_def Position_zero_def del: d_mul.simps)
  have caps: "cap ?m 9 = ''id0ADDA5BA +000fpm +0.0rot''" "cap ?m 1 = ''165829''" by (simp_all add: cap_def)
  have hd: "\<not> (equator_report \<noteq> [] \<and> hd equator_report = CHR ''#'')" by (simp add: equator_report_def)
  have p: "AprsParser_parsePosition 0 ?m a = (Ret True, a\<lparr>ac_position := Position_zero\<rparr>)" for a
    unfolding AprsParser_parsePosition_def pos by (simp add: Position_zero_def)
  have t: "AprsParser_parseTimeStamp 58000 80000000 ?m a = (Ret True, a\<lparr>ac_timeStamp := TimeStamp 61109000 58000\<rparr>)" for a
    unfolding AprsParser_parseTimeStamp_def caps num by simp
  have c: "\<exists>b. AprsParser_parseComment c a = (Ret True, b) \<and> ac_position b = ac_position a" if "cap c 1 = ''0A''" for c a
    using that by (simp add: AprsParser_parseComment_def andthen_def num set_idType_def set_aircraftType_def)
  have v: "\<exists>b a4. AprsParser_parseMovement m c a = (Ret b, a4) \<and> ac_position a4 = ac_position a" for m c a
    using AprsParser_steps_defined(4) [of m c a] aprs_steps_frame(4) [of m c a] by (cases "AprsParser_parseMovement m c a") auto
  obtain a3 where a3: "AprsParser_parseComment ?c ((Aircraft_new 0)\<lparr>ac_position := Position_zero, ac_timeStamp := TimeStamp 61109000 58000\<rparr>) =
      (Ret True, a3)" "ac_position a3 = Position_zero"
    using c [of ?c "(Aircraft_new 0)\<lparr>ac_position := Position_zero, ac_timeStamp := TimeStamp 61109000 58000\<rparr>"] by (auto simp: cap_def)
  obtain b a4 where "AprsParser_parseMovement ?m ?c a3 = (Ret b, a4)" "ac_position a4 = Position_zero" using v a3(2) by metis
  then show ?thesis
    unfolding AprsParser_unpack_def if_not_P [OF hd] re option.case p conj_then_def prod.case outcome.case bool.case t caps ext a3(1)
    by simp
qed

theorem aprs_report_processed_witness:
  "\<exists>b q. AircraftProcessor_process (snd (AprsParser_unpack bt_match 0 58000 80000000 equator_report (Aircraft_new 0)))
     (referTo Position_zero ICAO_STD_A (AircraftProcessor_new 10000)) = Ret (b, q)"
proof -
  obtain a' where a': "AprsParser_unpack bt_match 0 58000 80000000 equator_report (Aircraft_new 0) = (Ret True, a')"
    "ac_position a' = Position_zero" using equator_accepted by blast
  have "near Position_zero Position_zero" by (simp add: near_def Position_zero_def)
  then show ?thesis
    using aprs_report_processed [OF bt.regex_engine_axioms a'(1), of "referTo Position_zero ICAO_STD_A (AircraftProcessor_new 10000)"] a'
    by (simp add: referTo_def Position_zero_def)
qed

end
