(* ===== verification/Client_Reader.thy ===== *)
theory Client_Reader
  imports Client_Machine Cpp_String
begin

text \<open>
  The receiving side of \<open>ConnectorImplBoost\<close>: the bytes of a connection are collected in a stream buffer and
  cut into the lines the client's read handler gets. The theory adds the buffer to the client's state machine
  and shows that the machine of \<open>Client\<close>, where the line is arbitrary, is an abstraction of it.
\<close>

section \<open>The read buffer\<close>

text \<open>
  \<open>m_buffer\<close> and \<open>m_response\<close> belong to the connector of the client. The last two fields record, for
  the statements below, the bytes that have arrived and the lines that were handed on.
\<close>

record 'f reader =
  rd_client :: "'f client"
  rd_buffer :: string
  rd_response :: string
  rd_received :: string
  rd_lines :: "string list"

definition Reader_new :: "client_class \<Rightarrow> endpoint \<Rightarrow> 'f reader" where
  "Reader_new k ep =
     \<lparr>rd_client = Client_new k ep, rd_buffer = [], rd_response = [], rd_received = [], rd_lines = []\<rparr>"

definition LF :: char where "LF = CHR 0x0A"

text \<open>\<open>std::getline(m_istream, m_response)\<close>: the text before the line feed, and what is left behind it.\<close>

definition getline :: "string \<Rightarrow> string \<times> string" where
  "getline s = (takeWhile (\<lambda>c. c \<noteq> LF) s, tl (dropWhile (\<lambda>c. c \<noteq> LF) s))"

text \<open>
  \<open>async_read_until\<close> appends what arrives to the buffer, \<open>bytes\<close>, and succeeds only if the delimiter is in it. The
  end of a failed read may have left bytes in the buffer, too.
\<close>

definition read_ready :: "errorCode \<Rightarrow> string \<Rightarrow> 'f reader \<Rightarrow> bool" where
  "read_ready e bytes r \<longleftrightarrow> (e = SUCCESS \<longrightarrow> str_contains (rd_buffer r @ bytes) crlf_end)"

text \<open>The connector's \<open>handleRead\<close>, up to and including the callback.\<close>

definition Connector_handleRead ::
  "('f \<Rightarrow> string \<Rightarrow> bool) \<Rightarrow> pending \<Rightarrow> errorCode \<Rightarrow> string \<Rightarrow> 'f reader \<Rightarrow> 'f reader" where
  "Connector_handleRead proc p e bytes r =
     (let buffer = rd_buffer r @ bytes; received = rd_received r @ bytes in
      if e = SUCCESS then
        let (line, rest) = getline buffer; response = line @ [LF]
        in \<lparr>rd_client = complete proc p SUCCESS response (rd_client r), rd_buffer = rest,
            rd_response = response, rd_received = received, rd_lines = rd_lines r @ [response]\<rparr>
      else r\<lparr>rd_client := complete proc p e (rd_response r) (rd_client r), rd_buffer := buffer,
             rd_received := received\<rparr>)"

text \<open>The completions of other operations, and the steps of the other threads, do not touch the buffer.\<close>

inductive rd_other :: "('f \<Rightarrow> string \<Rightarrow> bool) \<Rightarrow> 'f reader \<Rightarrow> 'f reader \<Rightarrow> bool" for proc where
  run: "rd_other proc r (r\<lparr>rd_client := Client_run (rd_client r)\<rparr>)"
| completed: "p \<in> pend (rd_client r) \<Longrightarrow>
     \<not> co_stopped (cl_connector (rd_client r)) \<or> cl_state (rd_client r) = STOPPING \<Longrightarrow> may_answer (cl_connector (rd_client r)) p e \<Longrightarrow>
     p_op p \<noteq> Read \<Longrightarrow> rd_other proc r (r\<lparr>rd_client := complete proc p e [] (rd_client r)\<rparr>)"
| ended: "cl_state (rd_client r) \<noteq> NONE \<Longrightarrow>
     co_stopped (cl_connector (rd_client r)) \<or> co_pending (cl_connector (rd_client r)) = [] \<Longrightarrow>
     rd_other proc r (r\<lparr>rd_client := loop_ended (rd_client r)\<rparr>)"
| stop: "rd_other proc r (r\<lparr>rd_client := scheduleStop (rd_client r)\<rparr>)"
| subscribe: "rd_other proc r (r\<lparr>rd_client := Client_subscribe f (rd_client r)\<rparr>)"
| elapse: "rd_other proc r (r\<lparr>rd_client := elapse d (rd_client r)\<rparr>)"

inductive rd_step :: "('f \<Rightarrow> string \<Rightarrow> bool) \<Rightarrow> 'f reader \<Rightarrow> 'f reader \<Rightarrow> bool" for proc where
  other: "rd_other proc r r' \<Longrightarrow> rd_step proc r r'"
| read: "p \<in> pend (rd_client r) \<Longrightarrow> p_op p = Read \<Longrightarrow>
     \<not> co_stopped (cl_connector (rd_client r)) \<or> cl_state (rd_client r) = STOPPING \<Longrightarrow>
     read_ready e bytes r \<Longrightarrow> rd_step proc r (Connector_handleRead proc p e bytes r)"

section \<open>The client's machine is an abstraction\<close>

lemma rd_other_client: "rd_other proc r r' \<Longrightarrow> cl_step proc (rd_client r) (rd_client r')"
  by (induction rule: rd_other.induct) (auto intro: cl_step.intros)

lemma rd_step_client:
  assumes "rd_step proc r r'"
  shows "cl_step proc (rd_client r) (rd_client r')"
  using assms
proof (cases rule: rd_step.cases)
  case (read p e bytes)
  then have "may_answer (cl_connector (rd_client r)) p e" by (simp add: may_answer_def)
  moreover obtain response where "rd_client r' = complete proc p e response (rd_client r)"
    using read(1) by (cases e) (auto simp: Connector_handleRead_def Let_def case_prod_beta)
  ultimately show ?thesis using read by (auto intro: cl_step.completed)
qed (rule rd_other_client)

definition rd_fresh :: "'f reader \<Rightarrow> bool" where
  "rd_fresh r \<longleftrightarrow> (\<exists>k ep. r = Reader_new k ep)"

interpretation rd: refined_system fresh "cl_step proc" rd_fresh "rd_step proc" rd_client for proc
proof
  show "rd_fresh r \<Longrightarrow> fresh (rd_client r)" for r :: "'a reader"
    by (auto simp: rd_fresh_def fresh_def Reader_new_def) blast
  show "rd_step proc r r' \<Longrightarrow> (cl_step proc)\<^sup>*\<^sup>* (rd_client r) (rd_client r')" for r r' :: "'a reader"
    by (blast intro: rd_step_client)
qed

section \<open>Lines\<close>

lemma crlf_contains_LF: "str_contains s crlf_end \<Longrightarrow> LF \<in> set s"
  by (induction s crlf_end rule: str_contains.induct)
     (auto simp: crlf_end_def LF_def elim!: starts_with.elims)

lemma getline_split:
  assumes "LF \<in> set s" "getline s = (line, rest)"
  shows "s = line @ LF # rest" "LF \<notin> set line"
proof -
  have "dropWhile (\<lambda>c. c \<noteq> LF) s \<noteq> []" using assms(1) by (simp add: dropWhile_eq_Nil_conv)
  then have "dropWhile (\<lambda>c. c \<noteq> LF) s = LF # rest"
    using assms(2) hd_dropWhile [of "\<lambda>c. c \<noteq> LF" s] by (cases "dropWhile (\<lambda>c. c \<noteq> LF) s") (auto simp: getline_def)
  then show "s = line @ LF # rest"
    using assms(2) takeWhile_dropWhile_id [of "\<lambda>c. c \<noteq> LF" s] by (simp add: getline_def)
  show "LF \<notin> set line" using assms(2) set_takeWhileD [of LF "\<lambda>c. c \<noteq> LF" s] by (auto simp: getline_def)
qed

text \<open>Reading keeps the books: the lines handed on and the buffer are the bytes received.\<close>

definition rd_inv :: "'f reader \<Rightarrow> bool" where
  "rd_inv r \<longleftrightarrow>
     concat (rd_lines r) @ rd_buffer r = rd_received r \<and>
     (\<forall>l \<in> set (rd_lines r). \<exists>t. l = t @ [LF] \<and> LF \<notin> set t)"

lemma rd_other_frame:
  "rd_other proc r r' \<Longrightarrow>
     rd_buffer r' = rd_buffer r \<and> rd_received r' = rd_received r \<and> rd_lines r' = rd_lines r \<and> rd_response r' = rd_response r"
  by (induction rule: rd_other.induct) simp_all

lemma rd_others_frame: "(rd_other proc)\<^sup>*\<^sup>* r r' \<Longrightarrow> rd_buffer r' = rd_buffer r"
  by (induction rule: rtranclp_induct) (auto dest: rd_other_frame)

lemma handleRead_success:
  assumes "read_ready SUCCESS bytes r"
  obtains line rest where "rd_buffer r @ bytes = line @ LF # rest" "LF \<notin> set line"
    "Connector_handleRead proc p SUCCESS bytes r =
       \<lparr>rd_client = complete proc p SUCCESS (line @ [LF]) (rd_client r), rd_buffer = rest,
        rd_response = line @ [LF], rd_received = rd_received r @ bytes, rd_lines = rd_lines r @ [line @ [LF]]\<rparr>"
proof -
  have lf: "LF \<in> set (rd_buffer r @ bytes)"
    using assms crlf_contains_LF [of "rd_buffer r @ bytes"] by (simp add: read_ready_def)
  obtain line rest where g: "getline (rd_buffer r @ bytes) = (line, rest)" by force
  show thesis
    by (rule that [OF getline_split [OF lf g]]) (simp add: Connector_handleRead_def g Let_def)
qed

lemma rd_step_inv:
  assumes "rd_step proc r r'" "rd_inv r"
  shows "rd_inv r'"
  using assms(1)
proof (cases rule: rd_step.cases)
  case other
  then show ?thesis using rd_other_frame assms(2) by (fastforce simp: rd_inv_def)
next
  case (read p e bytes)
  show ?thesis
  proof (cases e)
    case SUCCESS
    then obtain line rest where l: "rd_buffer r @ bytes = line @ LF # rest" "LF \<notin> set line"
      "r' = \<lparr>rd_client = complete proc p SUCCESS (line @ [LF]) (rd_client r), rd_buffer = rest,
        rd_response = line @ [LF], rd_received = rd_received r @ bytes, rd_lines = rd_lines r @ [line @ [LF]]\<rparr>"
      using handleRead_success [of bytes r proc p] read(1, 5) by metis
    have "concat (rd_lines r) @ line @ LF # rest = (concat (rd_lines r) @ rd_buffer r) @ bytes"
      using l(1) by simp
    then show ?thesis using assms(2) l(2, 3) by (auto simp: rd_inv_def)
  next
    case FAILURE
    then show ?thesis using assms(2) read(1) by (auto simp: rd_inv_def Connector_handleRead_def)
  qed
qed

lemma rd_run_inv:
  assumes "(rd_step proc)\<^sup>*\<^sup>* (Reader_new k ep) r"
  shows "rd_inv r"
  using assms
proof (induction rule: rtranclp_induct)
  case base
  show ?case by (simp add: rd_inv_def Reader_new_def)
qed (rule rd_step_inv)

section \<open>Properties of the reader\<close>



section \<open>An example\<close>

lemma drive_others:
  assumes "list_all (\<lambda>(cb, e, x). cb \<noteq> HandleRead \<and> x = []) evs" "cl_inv (rd_client r)"
  shows "(rd_other proc)\<^sup>*\<^sup>* r (r\<lparr>rd_client := drive proc evs (rd_client r)\<rparr>)"
  using assms
proof (induction evs arbitrary: r)
  case (Cons ev evs)
  obtain cb e where ev: "ev = (cb, e, [])" "cb \<noteq> HandleRead" using Cons.prems(1) by (cases ev) auto
  let ?c = "rd_client r"
  show ?case
  proof (cases "\<exists>p. find (\<lambda>p. p_cb p = cb) (co_pending (cl_connector ?c)) = Some p \<and>
      \<not> co_stopped (cl_connector ?c) \<and> may_answer (cl_connector ?c) p e")
    case True
    then obtain p where p: "find (\<lambda>p. p_cb p = cb) (co_pending (cl_connector ?c)) = Some p"
        "\<not> co_stopped (cl_connector ?c)" "may_answer (cl_connector ?c) p e" by blast
    then have pend: "p \<in> pend ?c" "p_cb p = cb" by (auto simp: find_Some_iff)
    then have "fits (cl_class ?c) p" using well_phase [OF Cons.prems(2)] unfolding well_iff by blast
    then have "p_op p \<noteq> Read" using pend(2) ev(2) by (cases cb) auto
    let ?r = "r\<lparr>rd_client := complete proc p e [] ?c\<rparr>"
    have "rd_other proc r ?r" using p pend \<open>p_op p \<noteq> Read\<close> by (intro rd_other.completed) auto
    moreover have "cl_inv (rd_client ?r)" using complete_inv(1) [OF Cons.prems(2) pend(1) _ p(3)] p(2) by simp
    then have "(rd_other proc)\<^sup>*\<^sup>* ?r (r\<lparr>rd_client := drive proc (ev # evs) ?c\<rparr>)"
      using Cons.IH [of ?r] Cons.prems(1) p by (simp add: ev)
    ultimately show ?thesis by (rule converse_rtranclp_into_rtranclp)
  next
    case False
    then have "drive proc (ev # evs) ?c = ?c" by (auto simp: ev split: option.split)
    then show ?thesis by simp
  qed
qed simp

text \<open>A client that is connected and has a read under way.\<close>

abbreviation sample_ep :: endpoint where "sample_ep \<equiv> \<lparr>host = ''a'', port = ''1''\<rparr>"

abbreviation sample_read :: pending where "sample_read \<equiv> \<lparr>p_op = Read, p_cb = HandleRead, p_cancelled = False, p_late = False\<rparr>"

definition sample_reader :: "nat reader" where
  "sample_reader = (Reader_new SbsClient sample_ep)
     \<lparr>rd_client := drive (\<lambda>f r. True) [(HandleConnect, SUCCESS, []), (HandleConnect, SUCCESS, [])]
        (Client_run (Client_new SbsClient sample_ep))\<rparr>"

lemma sample_reader_reached: "(rd_step (\<lambda>f r. True))\<^sup>*\<^sup>* (Reader_new SbsClient sample_ep) sample_reader"
proof -
  let ?r = "(Reader_new SbsClient sample_ep)\<lparr>rd_client := Client_run (Client_new SbsClient sample_ep)\<rparr> :: nat reader"
  have "rd_other (\<lambda>f r. True) (Reader_new SbsClient sample_ep) ?r"
    using rd_other.run [of "\<lambda>f r. True" "Reader_new SbsClient sample_ep"] by (simp add: Reader_new_def)
  moreover have "cl_inv (rd_client ?r)"
    using cl_step_inv [OF cl_step.run cl_run_inv [OF rtranclp.rtrancl_refl]] by simp
  then have "(rd_other (\<lambda>f r. True))\<^sup>*\<^sup>* ?r sample_reader"
    using drive_others [of "[(HandleConnect, SUCCESS, []), (HandleConnect, SUCCESS, [])]" ?r "\<lambda>f r. True"]
    by (simp add: sample_reader_def)
  ultimately have "(rd_other (\<lambda>f r. True))\<^sup>*\<^sup>* (Reader_new SbsClient sample_ep) sample_reader"
    by (rule converse_rtranclp_into_rtranclp)
  then show ?thesis by (rule rtranclp_mono [THEN predicate2D, rotated]) (auto intro: rd_step.other)
qed

lemma sample_reader_client:
  "cl_state (rd_client sample_reader) = RUNNING" "sample_read \<in> pend (rd_client sample_reader)"
  "\<not> co_stopped (cl_connector (rd_client sample_reader))"
  by (simp_all add: sample_reader_def scripted)



end
