(* ===== verification/Client_Timer.thy ===== *)
theory Client_Timer
  imports Client_Machine
begin

text \<open>
  The timers of the clients: how long a client waits before it connects again, and when a sensor client drops a connection because nothing is
  received on it.
\<close>

section \<open>The clock and the class\<close>

lemma timer_ops [simp]:
  "timerExpired (start_op x cb co) = timerExpired co" "timerExpired (cancel w co) = timerExpired co"
  "timerExpired (co\<lparr>co_pending := ps\<rparr>) = timerExpired co" "timerExpired (co\<lparr>co_open := b\<rparr>) = timerExpired co"
  "timerExpired (cl_connector (remove_pending p c)) = timerExpired (cl_connector c)"
  "\<not> timerExpired (expires_at pos_infin co)" "timerExpired (expires_at (At t) co) \<longleftrightarrow> t \<le> co_now co"
  by (simp_all add: timerExpired_def split: expiry.split)

text \<open>What a client does leaves the clock and its class alone.\<close>

lemma connector_now [simp]:
  "co_now (onConnect ep cb co) = co_now co" "co_now (onRead cb co) = co_now co" "co_now (onWrite m cb co) = co_now co"
  "co_now (onTimeout cb t co) = co_now co" "co_now (Connector_stop co) = co_now co"
  by (simp_all add: onConnect_def onRead_def onWrite_def onTimeout_def Connector_stop_def)

abbreviation now :: "'f client \<Rightarrow> nat" where "now c \<equiv> co_now (cl_connector c)"

lemma client_now [simp]:
  "now (connect c) = now c" "now (reconnect c) = now c" "now (Client_stop c) = now c" "now (Client_read c) = now c"
  "now (sendKeepAlive c) = now c"
  by (simp_all add: connect_def reconnect_def timedConnect_def Client_stop_def base_stop_def Client_read_eq sendKeepAlive_def)

lemma client_class [simp]:
  "cl_class (connect c) = cl_class c" "cl_class (reconnect c) = cl_class c" "cl_class (Client_stop c) = cl_class c"
  "cl_class (Client_read c) = cl_class c" "cl_class (sendKeepAlive c) = cl_class c"
  by (simp_all add: connect_def reconnect_def timedConnect_def Client_stop_def base_stop_def Client_read_eq sendKeepAlive_def)

lemma feed_loop_now [simp]:
  "now (feed_loop proc response fs c) = now c" "cl_class (feed_loop proc response fs c) = cl_class c"
  by (induction fs arbitrary: c) simp_all

lemma dispatch_now [simp]:
  "now (dispatch proc cb e r c) = now c" "cl_class (dispatch proc cb e r c) = cl_class c"
  by (cases cb; simp add: handleConnect_eq handleTimedConnect_def scheduleStop_def handleRead_def handleLogin_def
      handleSendKeepAlive_def handleBeacon_def handleWatch_def checkDeadline_def split: client_class.split)+

lemma complete_now [simp]:
  "now (complete proc p e r c) = now c" "cl_class (complete proc p e r c) = cl_class c"
  by (simp_all add: complete_def Let_def split: io_op.split)

lemma cl_step_now:
  assumes "cl_step proc c c'"
  shows "now c \<le> now c'" "cl_class c' = cl_class c"
  using assms by (cases rule: cl_step.cases; simp add: Client_run_def loop_ended_def scheduleStop_def Client_subscribe_def)+

lemma cl_run_now:
  assumes "(cl_step proc)\<^sup>*\<^sup>* c c'"
  shows "now c \<le> now c'" "cl_class c' = cl_class c"
  using assms by (induction rule: rtranclp_induct) (auto dest: cl_step_now)

section \<open>The wait before a connection is tried again\<close>

lemma reconnect_timer: "cl_state c \<noteq> STOPPING \<Longrightarrow> co_expiry (cl_connector (reconnect c)) = At (now c + seconds C_CON_WAIT_TIMEVAL)"
  by (simp add: reconnect_def timedConnect_def onTimeout_def C_CON_WAIT_TIMEVAL_def)

abbreviation scheduled :: "'f client \<Rightarrow> bool" where
  "scheduled c \<equiv> HandleTimedConnect \<in> handlers (cl_connector c)"

lemma handlers_ops [simp]:
  "handlers (Connector_close co) = handlers co" "handlers (Connector_stop co) = handlers co"
  "handlers (onConnect ep cb co) = insert cb (handlers co)" "handlers (onTimeout cb t co) = insert cb (handlers co)"
  "HandleTimedConnect \<in> handlers (onRead cb co) \<longleftrightarrow> cb = HandleTimedConnect \<and> co_open co \<or> HandleTimedConnect \<in> handlers co"
  "HandleTimedConnect \<in> handlers (onWrite m cb co) \<longleftrightarrow> cb = HandleTimedConnect \<and> co_open co \<or> HandleTimedConnect \<in> handlers co"
proof -
  show "handlers (Connector_close co) = handlers co"
    using cancel_simps(5) [of on_socket "cancel is_wait (expires_at pos_infin co)"]
    by (simp add: Connector_close_def Let_def)
  then show "handlers (Connector_stop co) = handlers co" by (simp add: Connector_stop_def)
qed (auto simp: onConnect_def onTimeout_def onRead_def onWrite_def)

lemma client_scheduled [simp]:
  "scheduled (connect c) = scheduled c" "scheduled (Client_stop c) = scheduled c" "scheduled (Client_read c) = scheduled c"
  "scheduled (sendKeepAlive c) = scheduled c"
  by (simp_all add: connect_def Client_stop_def base_stop_def Client_read_eq sendKeepAlive_def)

lemma feed_loop_scheduled [simp]: "scheduled (feed_loop proc response fs c) = scheduled c"
  by (induction fs arbitrary: c) simp_all

text \<open>The step that schedules a reconnect sets the timer.\<close>

abbreviation rearmed :: "'f client \<Rightarrow> bool" where
  "rearmed c \<equiv> co_expiry (cl_connector c) = At (now c + seconds C_CON_WAIT_TIMEVAL)"

lemma dispatch_schedules: "scheduled (dispatch proc cb e r c) \<Longrightarrow> scheduled c \<or> rearmed (dispatch proc cb e r c)"
  by (cases cb)
     (auto simp: handleConnect_eq handleTimedConnect_def scheduleStop_def handleRead_def handleLogin_def
      handleSendKeepAlive_def handleBeacon_def handleWatch_def checkDeadline_def reconnect_timer
      split: client_class.splits if_splits)

lemma remove_scheduled: "scheduled (remove_pending p c) \<Longrightarrow> scheduled c"
  using set_remove1_subset [of p "co_pending (cl_connector c)"] by (fastforce simp: remove_pending_def)

lemma complete_schedules:
  assumes "p \<in> pend c" "scheduled (complete proc p e r c)"
  shows "scheduled c \<or> rearmed (complete proc p e r c)"
proof (rule ccontr)
  assume n: "\<not> ?thesis"
  let ?c = "remove_pending p c" and ?o = "use (\<lambda>k. k\<lparr>co_open := True\<rparr>) (remove_pending p c)"
  have "\<not> scheduled ?c" "\<not> scheduled ?o" using n remove_scheduled [of p c] by auto
  moreover have "p_cb p \<noteq> HandleTimedConnect" using n assms(1) by (metis imageI)
  ultimately show False
    using n assms(2) dispatch_schedules [of proc "p_cb p" e r ?c] dispatch_schedules [of proc "p_cb p" e r ?o]
    by (cases "p_op p"; cases e) (auto simp: complete_def)
qed

lemma cl_step_schedules:
  assumes "cl_step proc c c'" "scheduled c'"
  shows "scheduled c \<or> rearmed c'"
  using assms(1)
proof (cases rule: cl_step.cases)
  case (completed p e response)
  then show ?thesis using complete_schedules assms(2) by blast
qed (use assms(2) in \<open>auto simp: Client_run_def loop_ended_def scheduleStop_def Client_subscribe_def split: if_splits\<close>)

text \<open>Until the timer has run off, nothing but a stop gets a client out of the wait.\<close>

definition waiting :: "nat \<Rightarrow> 'f client \<Rightarrow> bool" where
  "waiting t c \<longleftrightarrow> live c \<and> cl_state c = CONNECTING \<and> scheduled c \<and> co_expiry (cl_connector c) = At t"

lemma waiting_est:
  assumes "waiting t c" "p \<in> pend c" "est p"
  shows "p_cb p = HandleTimedConnect" "p_op p = Wait" "\<not> p_cancelled p"
proof -
  have lc: "live c" "cl_state c = CONNECTING" using assms(1) by (simp_all add: waiting_def)
  obtain q where q: "filter est (co_pending (cl_connector c)) = [q]" "fits (cl_class c) q" "p_op q = Wait \<Longrightarrow> \<not> p_cancelled q"
    using connecting_est [OF lc] by metis
  obtain w where w: "w \<in> pend c" "p_cb w = HandleTimedConnect" using assms(1) by (auto simp: waiting_def)
  have "{p, w} \<subseteq> set (filter est (co_pending (cl_connector c)))" using assms(2, 3) w by simp
  then have "p = q" "w = q" using q(1) by simp_all
  then show "p_cb p = HandleTimedConnect" "p_op p = Wait" "\<not> p_cancelled p" using w(2) q(2, 3) by auto
qed

lemma waiting_step:
  assumes "waiting t c" "cl_step proc c c'"
  shows "waiting t c' \<or> t \<le> now c' \<or> co_stopped (cl_connector c')"
proof -
  have w: "live c" "cl_state c = CONNECTING" "scheduled c" "co_expiry (cl_connector c) = At t"
    using assms(1) by (simp_all add: waiting_def)
  have inv: "cl_inv c'" using cl_step_inv [OF assms(2)] w(1) by blast
  show ?thesis
    using assms(2)
  proof (cases rule: cl_step.cases)
    case (completed p e response)
    note p = waiting_est [OF assms(1) completed(2)]
    show ?thesis
    proof (cases "est p")
      case True
      then have "timerExpired (cl_connector c)" using p completed(4) by (simp add: may_answer_def)
      then show ?thesis using w(4) completed(1) by (simp add: timerExpired_def)
    next
      case False
      have fits: "fits (cl_class c) p" using well_phase w(1) completed(2) by (auto simp: well_iff)
      have "scheduled (remove_pending p c)" using w(3) False by (auto intro: remove_other)
      moreover have "c' = remove_pending p c"
        using completed(1) fits_est_cases(1) [OF fits False] dispatch_stale [of "remove_pending p c" "p_cb p" proc e response] w(2) False
        by (auto simp: complete_def)
      ultimately show ?thesis using inv w by (simp add: waiting_def)
    qed
  next
    case ended
    then show ?thesis by (simp add: loop_ended_def)
  next
    case stop
    then show ?thesis using Client_stop_stops [OF well_phase] w(1, 2) by (auto simp: scheduleStop_def)
  qed (use w inv in \<open>auto simp: waiting_def Client_run_def Client_subscribe_def\<close>)
qed

lemma waiting_run:
  assumes "cl_move\<^sup>*\<^sup>* c c'" "waiting t c"
  shows "waiting t c' \<or> t \<le> now c' \<or> co_stopped (cl_connector c') \<and> cl_inv c'"
  using assms
proof (induction rule: rtranclp_induct)
  case (step d d')
  obtain proc where s: "cl_step proc d d'" using step(2) by (auto simp: cl_move_def)
  then show ?case
    using step waiting_step [of t d proc d'] cl_step_now(1) [OF s] stopped_step [OF _ s] cl_step_inv [OF s]
    by (auto simp: waiting_def)
qed simp

lemma scheduled_waiting:
  assumes "live c" "scheduled c" "co_expiry (cl_connector c) = At t"
  shows "waiting t c"
proof -
  obtain p where p: "p \<in> pend c" "p_cb p = HandleTimedConnect" using assms(2) by auto
  have "cl_state c = CONNECTING"
  proof (cases "cl_state c")
    case RUNNING
    then have "filter est (co_pending (cl_connector c)) = []"
      using live_running [OF assms(1)] by (simp add: running_def calm_def)
    then show ?thesis using p by (auto simp: filter_empty_conv)
  qed (use assms(1) p in \<open>auto simp: cl_inv_def\<close>)
  then show ?thesis using assms by (simp add: waiting_def)
qed

section \<open>The deadline of the sensor client\<close>

text \<open>
  No wait for the deadline has run off: those that are cancelled were cancelled in time, and the others are the ones of the
  running connection.
\<close>

definition in_time :: "bool \<Rightarrow> connector \<Rightarrow> bool" where
  "in_time b co \<longleftrightarrow>
     (\<forall>p \<in> set (co_pending co). p_cb p = CheckDeadline \<longrightarrow> \<not> p_late p \<and> (p_cancelled p \<or> b))"

lemma in_time_simps [simp]:
  "in_time b (start_op x cb co) \<longleftrightarrow> (cb = CheckDeadline \<longrightarrow> b) \<and> in_time b co"
  "in_time b (co\<lparr>co_open := o'\<rparr>) = in_time b co" "in_time b (co\<lparr>co_now := n\<rparr>) = in_time b co"
  "in_time b (co\<lparr>co_expiry := t\<rparr>) = in_time b co" "in_time b (co\<lparr>co_stopped := s'\<rparr>) = in_time b co"
  by (auto simp: in_time_def start_op_def)

lemma in_time_cancel:
  assumes "in_time b co" "b \<Longrightarrow> \<not> timerExpired co" "well k co"
  shows "in_time b' (cancel is_wait co)"
proof -
  have "is_wait (p_op p)" if "p \<in> set (co_pending co)" "p_cb p = CheckDeadline" for p
    using assms(3) that by (auto simp: well_iff)
  then show ?thesis using assms(1, 2) by (auto simp: in_time_def cancel_def)
qed

lemma in_time_cancel_socket: "well k co \<Longrightarrow> in_time b co \<Longrightarrow> in_time b (cancel on_socket co)"
  by (fastforce simp: in_time_def cancel_def well_iff)

lemma in_time_expires_at:
  "in_time b co \<Longrightarrow> (b \<Longrightarrow> \<not> timerExpired co) \<Longrightarrow> well k co \<Longrightarrow> in_time b' (expires_at x co)"
  by (simp add: expires_at_def in_time_cancel)

lemma in_time_close:
  assumes "in_time b co" "b \<Longrightarrow> \<not> timerExpired co" "well k co"
  shows "in_time b' (Connector_close co)"
proof -
  have "in_time False (expires_at pos_infin co)" by (rule in_time_expires_at [OF assms])
  then have i: "in_time b' (cancel is_wait (expires_at pos_infin co))" by (rule in_time_cancel [where k = k]) (use assms(3) in simp_all)
  have "well k (cancel is_wait (expires_at pos_infin co))" using assms(3) by simp
  then show ?thesis using i in_time_cancel_socket by (simp add: Connector_close_def Let_def)
qed

lemma in_time_remove: "in_time b (cl_connector c) \<Longrightarrow> in_time b (cl_connector (remove_pending p c))"
  using set_remove1_subset [of p "co_pending (cl_connector c)"] by (fastforce simp: in_time_def remove_pending_def)

abbreviation early :: "'f client \<Rightarrow> bool" where
  "early c \<equiv> in_time (cl_state c = RUNNING) (cl_connector c)"

lemma reconnect_early:
  assumes "early c" "cl_state c = RUNNING \<Longrightarrow> \<not> timerExpired (cl_connector c)" "well k (cl_connector c)"
  shows "early (reconnect c)"
proof -
  have "in_time False (Connector_close (cl_connector c))" by (rule in_time_close [OF assms])
  then have "in_time False (expires_at x (Connector_close (cl_connector c)))" for x
    by (rule in_time_expires_at [where k = k]) (use assms(3) in simp_all)
  then show ?thesis
    using assms(1)
    by (cases "cl_state c") (simp_all add: reconnect_def timedConnect_def onTimeout_def C_CON_WAIT_TIMEVAL_def)
qed

lemma read_early:
  assumes "early c" "cl_state c = RUNNING" "\<not> timerExpired (cl_connector c)" "well k (cl_connector c)"
  shows "early (Client_read c)"
  using assms in_time_expires_at [of True "cl_connector c" k True]
  by (simp add: Client_read_eq onRead_def)

lemma connected_early:
  assumes "in_time False (cl_connector c)" "well SensorClient (cl_connector c)"
  shows "early (Client_read (use (onTimeout CheckDeadline WC_RCV_TIMEOUT) (c\<lparr>cl_state := RUNNING\<rparr>)))"
proof (rule read_early [where k = SensorClient])
  have "in_time True (expires_at (At (now c + seconds WC_RCV_TIMEOUT)) (cl_connector c))"
    by (rule in_time_expires_at [OF assms(1) _ assms(2)]) simp
  then show "early (use (onTimeout CheckDeadline WC_RCV_TIMEOUT) (c\<lparr>cl_state := RUNNING\<rparr>))"
    by (simp add: onTimeout_def WC_RCV_TIMEOUT_def)
qed (use assms(2) in \<open>simp_all add: onTimeout_def WC_RCV_TIMEOUT_def\<close>)

text \<open>Time may pass, but in the running state the timer is set again by a read before it has run off.\<close>

definition prompt :: "('f \<Rightarrow> string \<Rightarrow> bool) \<Rightarrow> 'f client \<Rightarrow> 'f client \<Rightarrow> bool" where
  "prompt proc c c' \<longleftrightarrow> cl_step proc c c' \<and> (cl_state c' = RUNNING \<longrightarrow> \<not> timerExpired (cl_connector c'))"

lemma early_answer:
  assumes "early c" "cl_state c = RUNNING \<Longrightarrow> \<not> timerExpired (cl_connector c)" "p \<in> pend c" "p_cb p = CheckDeadline"
    and "fits k p" "may_answer (cl_connector c) p e"
  shows "e = FAILURE"
  using assms by (cases e) (auto simp: in_time_def may_answer_def split: if_splits)

lemma dispatch_early:
  assumes "early c" "cl_state c = RUNNING \<Longrightarrow> \<not> timerExpired (cl_connector c)" "well SensorClient (cl_connector c)"
    and "cl_class c = SensorClient" "cl_state c \<in> {CONNECTING, RUNNING}" "cb_fits SensorClient x cb" "cb = CheckDeadline \<Longrightarrow> e = FAILURE"
    and "est_cb cb \<Longrightarrow> cl_state c = CONNECTING" "\<not> co_stopped (cl_connector (dispatch proc cb e r c))"
  shows "early (dispatch proc cb e r c)"
proof (cases cb)
  case HandleConnect
  then show ?thesis
    using assms(1, 2, 3, 4) reconnect_early [of c SensorClient] connected_early [of c]
    by (cases e; cases "cl_state c = CONNECTING") (simp_all add: handleConnect_eq)
next
  case HandleTimedConnect
  have "early (connect c)" using assms(1, 8) HandleTimedConnect by (simp add: connect_def onConnect_def)
  moreover have "co_stopped (cl_connector (Client_stop c))"
    using Client_stop_stops [of c] assms(3, 4, 5) by auto
  ultimately show ?thesis
    using HandleTimedConnect assms(9) by (cases e) (simp_all add: handleTimedConnect_def scheduleStop_def)
next
  case HandleRead
  have "feed_loop proc r (cl_feeds c) c = c" if "cl_state c = RUNNING" "e = SUCCESS"
  proof -
    have w: "well (cl_class c) (cl_connector c)" using assms(3, 4) by simp
    show ?thesis
      using feed_loop_cases [OF w that(1), of proc r "cl_feeds c"] read_stopped [of "feed_loop proc r (cl_feeds c) c"]
        HandleRead assms(9) that by (auto simp: handleRead_def)
  qed
  then show ?thesis
    using HandleRead assms(1, 2, 3) reconnect_early [of c SensorClient] read_early [of c SensorClient]
    by (cases e; cases "cl_state c = RUNNING") (simp_all add: handleRead_def)
next
  case CheckDeadline
  then show ?thesis using assms(1, 7) by (cases "cl_state c = RUNNING") (simp_all add: checkDeadline_def onTimeout_def)
qed (use assms(6) in simp_all)

lemma complete_early:
  assumes "live c" "cl_class c = SensorClient" "early c" "cl_state c = RUNNING \<Longrightarrow> \<not> timerExpired (cl_connector c)"
    and "p \<in> pend c" "may_answer (cl_connector c) p e" "\<not> co_stopped (cl_connector (complete proc p e r c))"
  shows "early (complete proc p e r c)"
proof -
  have w: "well SensorClient (cl_connector c)" using well_phase assms(1, 2) by metis
  then have fits: "fits SensorClient p" using assms(5) by (simp add: well_iff)
  have "cl_state c \<in> {CONNECTING, RUNNING}" using assms(1, 5) by (cases "cl_state c") (auto simp: cl_inv_def)
  moreover from this have "est p \<Longrightarrow> cl_state c = CONNECTING"
    using live_running [OF assms(1)] assms(5) by (auto simp: running_def calm_def filter_empty_conv)
  moreover have "p_cb p = CheckDeadline \<Longrightarrow> e = FAILURE" using early_answer [OF assms(3, 4, 5) _ fits assms(6)] by blast
  ultimately have d: "early (dispatch proc (p_cb p) e r d)"
    if "d = remove_pending p c \<or> d = use (\<lambda>k. k\<lparr>co_open := True\<rparr>) (remove_pending p c)"
      "\<not> co_stopped (cl_connector (dispatch proc (p_cb p) e r d))" for d
    using that assms(2, 3, 4) fits remove_well [OF w, of p] in_time_remove [OF assms(3), of p]
    by (intro dispatch_early [where x = "p_op p"]) auto
  show ?thesis
    using d [of "remove_pending p c"] d [of "use (\<lambda>k. k\<lparr>co_open := True\<rparr>) (remove_pending p c)"] assms(7) fits
      in_time_remove [OF assms(3), of p] fits_est_cases(2) [OF fits]
    by (cases "p_op p"; cases e) (auto simp: complete_def)
qed

lemma prompt_early:
  assumes "prompt proc c c'" "live c \<longrightarrow> early c" "cl_inv c" "cl_class c = SensorClient"
    and "cl_state c = RUNNING \<Longrightarrow> \<not> timerExpired (cl_connector c)" "live c'"
  shows "early c'"
proof -
  have step: "cl_step proc c c'" using assms(1) by (simp add: prompt_def)
  have l: "live c" using stopped_step [OF assms(3) step] assms(3, 6) by blast
  then have e: "early c" using assms(2) by blast
  show ?thesis
    using step
  proof (cases rule: cl_step.cases)
    case run
    have "early (connect c)" if "cl_state c = NONE"
      using e that by (simp add: connect_def onConnect_def)
    then show ?thesis using e run by (simp add: Client_run_def)
  next
    case (completed p x response)
    then show ?thesis using complete_early [OF l assms(4) e assms(5)] assms(6) by blast
  next
    case ended
    then show ?thesis using assms(6) by (simp add: loop_ended_def)
  next
    case stop
    then show ?thesis
      using e assms(6) Client_stop_stops [OF well_phase [OF assms(3)]]
      by (cases "cl_state c \<in> {RUNNING, CONNECTING}") (auto simp: scheduleStop_def)
  qed (use e in \<open>simp_all add: Client_subscribe_def\<close>)
qed

lemma prompt_run:
  assumes "(prompt proc)\<^sup>*\<^sup>* (Client_new SensorClient ep) c"
  shows "(cl_step proc)\<^sup>*\<^sup>* (Client_new SensorClient ep) c" "live c \<longrightarrow> early c"
    "cl_state c = RUNNING \<longrightarrow> \<not> timerExpired (cl_connector c)"
  using assms
proof (induction rule: rtranclp_induct)
  case base
  { case 1 show ?case by simp
  next case 2 show ?case by (simp add: in_time_def Client_new_def Connector_new_def)
  next case 3 show ?case by (simp add: Client_new_def) }
next
  case (step c c')
  have s: "cl_step proc c c'" and r: "cl_state c' = RUNNING \<longrightarrow> \<not> timerExpired (cl_connector c')"
    using step(2) by (simp_all add: prompt_def)
  have inv: "cl_inv c" "cl_class c = SensorClient"
    using cl_run_inv [OF step(3)] cl_run_now(2) [OF step(3)] by (simp_all add: Client_new_def)
  { case 1 show ?case using step(3) s by (rule rtranclp.rtrancl_into_rtrancl)
  next case 2 show ?case using prompt_early [OF step(2) step(4) inv] step(5) by blast
  next case 3 show ?case by (rule r) }
qed

lemma reconnect_waits:
  assumes "cl_reached c" "cl_move c c1" "\<not> scheduled c" "scheduled c1"
    and "cl_move\<^sup>*\<^sup>* c1 c2" "\<not> co_stopped (cl_connector c2)"
    and "HandleConnect \<in> handlers (cl_connector c2) \<or> cl_state c2 = RUNNING"
  shows "now c1 + seconds C_CON_WAIT_TIMEVAL \<le> now c2"
proof -
  obtain proc where step: "cl_step proc c c1" using assms(2) by (auto simp: cl_move_def)
  have "live c1" using moved_stopped [OF assms(5)] cl_step_inv [OF step cl_reached_inv [OF assms(1)]] assms(6) by blast
  moreover have "rearmed c1" using cl_step_schedules [OF step assms(4)] assms(3) by blast
  ultimately have "waiting (now c1 + seconds C_CON_WAIT_TIMEVAL) c1" using scheduled_waiting assms(4) by blast
  moreover have "\<not> waiting t c2" for t
    using assms(7) waiting_est(1) [of t c2] by (force simp: waiting_def)
  ultimately show ?thesis using waiting_run [OF assms(5)] assms(6) by blast
qed

section \<open>Properties of the timers\<close>

lemma sensor_pending:
  assumes "live c" "cl_class c = SensorClient" "cl_state c = RUNNING" "p \<in> pend c"
  shows "p_op p = Read \<and> p_cb p = HandleRead \<or> p_op p = Wait \<and> p_cb p = CheckDeadline"
proof -
  have "fits SensorClient p" "\<not> est p"
    using live_running [OF assms(1, 3)] assms(2, 4) by (auto simp: running_def calm_def well_iff filter_empty_conv)
  then show ?thesis by (cases "p_cb p") auto
qed

lemma feed_loop_state:
  "cl_state c \<in> {RUNNING, STOPPING} \<Longrightarrow> cl_state (feed_loop proc response fs c) \<in> {RUNNING, STOPPING}"
  by (induction fs arbitrary: c) (auto simp: Client_stop_def base_stop_def)

lemma read_state:
  assumes "cl_state c = RUNNING" "p_op p = Read" "p_cb p = HandleRead"
  shows "cl_state (complete proc p SUCCESS r c) \<in> {RUNNING, STOPPING}"
  using assms feed_loop_state [of "remove_pending p c" proc r "cl_feeds c"]
  by (auto simp: complete_def handleRead_def Client_read_eq Let_def)

lemma deadline_complete:
  assumes "cl_state c = RUNNING" "p_op p = Wait" "p_cb p = CheckDeadline"
  shows "complete proc p SUCCESS r c = reconnect (remove_pending p c)"
    "complete proc p FAILURE r c = use (start_op Wait CheckDeadline) (remove_pending p c)"
  using assms by (simp_all add: complete_def checkDeadline_def onTimeout_def use_def Let_def)


text \<open>The steps in which a client stays running without the end of a read.\<close>

inductive silent :: "('f \<Rightarrow> string \<Rightarrow> bool) \<Rightarrow> 'f client \<Rightarrow> 'f client \<Rightarrow> bool" for proc where
  completed: "p \<in> pend c \<Longrightarrow> p_op p \<noteq> Read \<Longrightarrow> may_answer (cl_connector c) p e \<Longrightarrow>
     cl_state (complete proc p e response c) = RUNNING \<Longrightarrow> silent proc c (complete proc p e response c)"
| subscribe: "silent proc c (Client_subscribe f c)"
| elapse: "silent proc c (elapse d c)"

abbreviation hearing :: "nat \<Rightarrow> 'f client \<Rightarrow> bool" where
  "hearing t c \<equiv> live c \<and> cl_class c = SensorClient \<and> cl_state c = RUNNING \<and> co_expiry (cl_connector c) = At t"

lemma silent_hearing:
  assumes "silent proc c c'" "hearing t c"
  shows "hearing t c'"
  using assms(1)
proof (cases rule: silent.cases)
  case (completed p e response)
  have p: "p_op p = Wait" "p_cb p = CheckDeadline" using sensor_pending [of c p] assms(2) completed(2, 3) by auto
  have "e = FAILURE" using completed(5) deadline_complete(1) [OF _ p, of c] assms(2) by (cases e) (auto simp: reconnect_def timedConnect_def)
  then have "co_expiry (cl_connector c') = At t" using completed(1) deadline_complete(2) [OF _ p, of c] assms(2) by simp
  moreover have "live c'"
    using complete_running [OF live_running, of c p proc e response] p(1) completed(1, 2) assms(2) by auto
  ultimately show ?thesis using completed(1, 5) assms(2) by simp
qed (use assms(2) in \<open>auto simp: Client_subscribe_def cl_inv_def\<close>)

lemma silent_run_hearing: "(silent proc)\<^sup>*\<^sup>* c c' \<Longrightarrow> hearing t c \<Longrightarrow> hearing t c'"
  by (induction rule: rtranclp_induct) (auto dest: silent_hearing)

lemma read_hearing:
  assumes "live c" "cl_class c = SensorClient" "cl_state c = RUNNING" "p \<in> pend c" "p_op p = Read"
    and "cl_state (complete proc p SUCCESS r c) = RUNNING"
  shows "hearing (now c + seconds WC_RCV_TIMEOUT) (complete proc p SUCCESS r c)"
proof -
  let ?c = "remove_pending p c"
  have p: "p_cb p = HandleRead" using sensor_pending [OF assms(1-4)] assms(5) by auto
  then have c': "complete proc p SUCCESS r c = Client_read (feed_loop proc r (cl_feeds c) ?c)"
    using assms(3, 5) by (simp add: complete_def handleRead_def)
  moreover have "co_expiry (cl_connector (Client_read (feed_loop proc r (cl_feeds c) ?c))) = At (now c + seconds WC_RCV_TIMEOUT)"
    using assms(2) by (simp add: Client_read_eq onRead_def)
  moreover have "cl_inv (complete proc p SUCCESS r c)"
    using complete_running(1) [OF live_running [OF assms(1, 3)] assms(3, 4)] .
  moreover from this have "\<not> co_stopped (cl_connector (complete proc p SUCCESS r c))"
    using assms(6) by (auto simp: cl_inv_def)
  ultimately show ?thesis using assms(2, 6) by simp
qed

text \<open>
  C22: A silent sensor is given up: when \<open>WC_RCV_TIMEOUT\<close> seconds have passed since the last line of a sensor client that goes on running,
  a wait for the deadline is under way. Its success makes the client reconnect; if it was cancelled by the last read and
  fails, the client starts another one, which can only succeed.
\<close>

theorem silent_sensor_given_up:
  assumes "(cl_step proc)\<^sup>*\<^sup>* (Client_new SensorClient ep) c" "\<not> co_stopped (cl_connector c)" "cl_state c = RUNNING"
    and "p \<in> pend c" "p_op p = Read" "cl_state (complete proc p SUCCESS response c) = RUNNING"
    and "(silent proc)\<^sup>*\<^sup>* (complete proc p SUCCESS response c) c'" "now c + seconds WC_RCV_TIMEOUT \<le> now c'"
  shows "(\<exists>q \<in> pend c'. p_cb q = CheckDeadline) \<and>
    (\<forall>q e r. q \<in> pend c' \<and> p_cb q = CheckDeadline \<and> may_answer (cl_connector c') q e \<longrightarrow>
      (if e = SUCCESS then cl_state (complete proc q e r c') = CONNECTING
       else cl_state (complete proc q e r c') = RUNNING \<and>
         (\<exists>q' \<in> pend (complete proc q e r c'). p_cb q' = CheckDeadline \<and>
           (\<forall>e'. may_answer (cl_connector (complete proc q e r c')) q' e' \<longleftrightarrow> e' = SUCCESS))))"
proof -
  have l: "live c" and cls: "cl_class c = SensorClient"
    using cl_run_inv [OF assms(1)] cl_run_now(2) [OF assms(1)] assms(2) by (simp_all add: Client_new_def)
  have h: "hearing (now c + seconds WC_RCV_TIMEOUT) c'"
    by (rule silent_run_hearing [OF assms(7)]) (rule read_hearing [OF l cls assms(3-6)])
  then have ex: "timerExpired (cl_connector c')" using assms(8) by (simp add: timerExpired_def)
  have "CheckDeadline \<in> handlers (cl_connector c')" using live_running [of c'] h by (simp add: running_def)
  then have "\<exists>q \<in> pend c'. p_cb q = CheckDeadline" unfolding image_iff by metis
  moreover have "(if e = SUCCESS then cl_state (complete proc q e r c') = CONNECTING
       else cl_state (complete proc q e r c') = RUNNING \<and>
         (\<exists>q' \<in> pend (complete proc q e r c'). p_cb q' = CheckDeadline \<and>
           (\<forall>e'. may_answer (cl_connector (complete proc q e r c')) q' e' \<longleftrightarrow> e' = SUCCESS)))"
    if "q \<in> pend c'" "p_cb q = CheckDeadline" for q e r
  proof -
    have q: "p_op q = Wait" using sensor_pending [of c' q] h that by auto
    note done' = deadline_complete [OF _ q that(2), of c' proc r]
    let ?w = "\<lparr>p_op = Wait, p_cb = CheckDeadline, p_cancelled = False, p_late = False\<rparr>"
    show ?thesis
    proof (cases e)
      case SUCCESS
      then show ?thesis using done'(1) h by (simp add: reconnect_def timedConnect_def)
    next
      case FAILURE
      have w: "?w \<in> pend (complete proc q FAILURE r c')" using done'(2) h by (simp add: start_op_def)
      have a: "may_answer (cl_connector (complete proc q FAILURE r c')) ?w e' \<longleftrightarrow> e' = SUCCESS" for e'
        using done'(2) h ex by (simp add: may_answer_def)
      have "\<exists>q' \<in> pend (complete proc q FAILURE r c'). p_cb q' = CheckDeadline \<and>
          (\<forall>e'. may_answer (cl_connector (complete proc q FAILURE r c')) q' e' \<longleftrightarrow> e' = SUCCESS)"
        by (rule bexI [OF _ w]) (simp add: a)
      then show ?thesis using FAILURE done'(2) h by simp
    qed
  qed
  ultimately show ?thesis by blast
qed

section \<open>Examples\<close>

text \<open>A sensor client that is connected, and receives a line after four seconds.\<close>

lemma drive_step: "cl_step proc c (drive proc [ev] c)"
proof -
  have same: "cl_step proc c c" using cl_step.elapse [of proc c 0] by (simp add: elapse_def use_def)
  obtain cb e r where ev: "ev = (cb, e, r)" by (cases ev)
  show ?thesis
  proof (cases "find (\<lambda>p. p_cb p = cb) (co_pending (cl_connector c))")
    case (Some p)
    then have "p \<in> pend c" by (auto simp: find_Some_iff)
    then show ?thesis using Some same cl_step.completed [of p c e proc r] by (simp add: ev)
  qed (simp add: ev same)
qed

abbreviation quiet_proc :: "nat \<Rightarrow> string \<Rightarrow> bool" where "quiet_proc \<equiv> \<lambda>f r. True"

abbreviation sensor_new :: "nat client" where "sensor_new \<equiv> Client_new SensorClient \<lparr>host = ''a'', port = ''1''\<rparr>"

abbreviation sensor_connector :: "pending list \<Rightarrow> nat \<Rightarrow> nat \<Rightarrow> connector" where
  "sensor_connector ps t n \<equiv> \<lparr>co_open = True, co_stopped = False, co_pending = ps, co_expiry = At t, co_now = n\<rparr>"

abbreviation sensor_read :: pending where
  "sensor_read \<equiv> \<lparr>p_op = Read, p_cb = HandleRead, p_cancelled = False, p_late = False\<rparr>"

abbreviation sensor_wait :: "bool \<Rightarrow> pending" where
  "sensor_wait b \<equiv> \<lparr>p_op = Wait, p_cb = CheckDeadline, p_cancelled = b, p_late = False\<rparr>"

definition sensor_running :: "nat client" where
  "sensor_running = sensor_new\<lparr>cl_state := RUNNING,
     cl_connector := sensor_connector [sensor_wait True, sensor_read] (seconds 5) 0\<rparr>"

lemmas sensor_scripted = scripted onTimeout_def resetTimer_def expires_at_def timerExpired_def WC_RCV_TIMEOUT_def elapse_def

lemma sensor_connects:
  "drive quiet_proc [(HandleConnect, SUCCESS, [])] (drive quiet_proc [(HandleConnect, SUCCESS, [])] (Client_run sensor_new)) =
     sensor_running"
  by (simp add: sensor_scripted sensor_running_def)

lemma sensor_prompt: "(prompt quiet_proc)\<^sup>*\<^sup>* sensor_new sensor_running"
proof -
  let ?d = "drive quiet_proc [(HandleConnect, SUCCESS, [])]"
  have "prompt quiet_proc sensor_new (Client_run sensor_new)"
    unfolding prompt_def by (rule conjI [OF cl_step.run]) (simp add: scripted)
  moreover have "prompt quiet_proc (Client_run sensor_new) (?d (Client_run sensor_new))"
    unfolding prompt_def by (rule conjI [OF drive_step]) (simp add: scripted)
  moreover have "prompt quiet_proc (?d (Client_run sensor_new)) sensor_running"
    unfolding prompt_def sensor_connects [symmetric]
    by (rule conjI [OF drive_step], unfold sensor_connects) (simp add: sensor_running_def timerExpired_def)
  ultimately show ?thesis by (meson rtranclp.rtrancl_into_rtrancl rtranclp.rtrancl_refl)
qed

definition sensor_heard :: "nat client" where
  "sensor_heard = complete quiet_proc sensor_read SUCCESS ''x'' (elapse (seconds 4) sensor_running)"

lemma sensor_heard_eq:
  "sensor_heard = sensor_new\<lparr>cl_state := RUNNING,
     cl_connector := sensor_connector [sensor_wait True, sensor_read] (seconds 9) (seconds 4)\<rparr>"
  by (simp add: sensor_heard_def sensor_running_def sensor_scripted)


theorem silent_sensor_given_up_witness:
  "let c = elapse (seconds 5) sensor_heard in now c = seconds 9 \<and> cl_state c = RUNNING \<and> sensor_wait True \<in> pend c \<and>
     (\<exists>q \<in> pend (complete quiet_proc (sensor_wait True) FAILURE [] c). p_cb q = CheckDeadline \<and>
       (\<forall>e. may_answer (cl_connector (complete quiet_proc (sensor_wait True) FAILURE [] c)) q e \<longleftrightarrow> e = SUCCESS))"
proof -
  let ?e = "elapse (seconds 4) sensor_running" and ?c = "elapse (seconds 5) sensor_heard"
  have run: "(cl_step quiet_proc)\<^sup>*\<^sup>* sensor_new ?e"
    using prompt_run(1) [OF sensor_prompt] cl_step.elapse by (rule rtranclp.rtrancl_into_rtrancl)
  have e: "\<not> co_stopped (cl_connector ?e)" "cl_state ?e = RUNNING" "sensor_read \<in> pend ?e" "now ?e = seconds 4"
    by (simp_all add: sensor_running_def)
  have h: "complete quiet_proc sensor_read SUCCESS ''x'' ?e = sensor_heard" by (simp add: sensor_heard_def)
  have r: "cl_state (complete quiet_proc sensor_read SUCCESS ''x'' ?e) = RUNNING" unfolding h by (simp add: sensor_heard_eq)
  have s: "(silent quiet_proc)\<^sup>*\<^sup>* (complete quiet_proc sensor_read SUCCESS ''x'' ?e) ?c"
    unfolding h by (rule r_into_rtranclp, rule silent.elapse)
  have c: "now ?c = seconds 9" "cl_state ?c = RUNNING" "sensor_wait True \<in> pend ?c"
    "may_answer (cl_connector ?c) (sensor_wait True) FAILURE"
    by (simp_all add: sensor_heard_eq may_answer_def)
  have "now ?e + seconds WC_RCV_TIMEOUT \<le> now ?c" using e(4) c(1) by (simp add: WC_RCV_TIMEOUT_def)
  note given_up = silent_sensor_given_up [OF run e(1, 2, 3) _ r s this]
  have "p_cb (sensor_wait True) = CheckDeadline" by simp
  then show ?thesis
    using given_up c unfolding Let_def
    by (metis errorCode.distinct(1) pending.select_convs(1))
qed

end
