(* ===== verification/Server_Thread.thy ===== *)
theory Server_Thread
  imports Server
begin

text \<open>
  The thread of the server: \<open>Server::run\<close> starts it, it asks for the first connection and runs the event loop of the network
  interface, and \<open>Server::stop\<close> waits for its end. The theory adds the thread to the server of \<open>Server\<close>, where the first accept is
  part of the start, and shows that the server without the thread is an abstraction of it.
\<close>

section \<open>The thread\<close>

text \<open>
  What the thread is about to do: call \<open>accept\<close>, call \<open>run\<close> of the interface, complete handlers in the event loop, or
  nothing any more.
\<close>

datatype thread_phase = Starting | Accepted | In_loop | Ended

text \<open>\<open>st_handler\<close> is the handler that waits to be called, with its error flag, \<open>st_stopped\<close> whether \<open>m_ioService\<close> was stopped.\<close>

record server_thread =
  st_server :: server
  st_handler :: "bool option"
  st_phase :: thread_phase
  st_stopped :: bool

definition Server_run_thread :: "server \<Rightarrow> server_thread" where
  "Server_run_thread s =
     \<lparr>st_server = s\<lparr>srv_running := True\<rparr>, st_handler = None, st_phase = Starting, st_stopped = False\<rparr>"

text \<open>
  \<open>NetworkInterfaceImplBoost::run\<close> enters the event loop if the acceptor is open, and otherwise returns. Its handlers for exceptions only
  write to the log.
\<close>

definition NI_run :: "netInterface \<Rightarrow> thread_phase" where
  "NI_run n = (if ni_acceptorOpen n then In_loop else Ended)"

text \<open>The event loop returns when it was stopped or has nothing to wait for.\<close>

definition loop_returns :: "server_thread \<Rightarrow> bool" where
  "loop_returns t \<longleftrightarrow> st_stopped t \<or> \<not> ni_accepting (srv_net (st_server t)) \<and> st_handler t = None"

text \<open>\<open>stop\<close> up to the wait for the thread; \<open>NetworkInterfaceImplBoost::stop\<close> stops the event loop. The wait is over in the phase \<open>Ended\<close>.\<close>

definition Server_stop_thread :: "server_thread \<Rightarrow> server_thread" where
  "Server_stop_thread t =
     t\<lparr>st_server := Server_stop (st_server t), st_stopped := (st_stopped t \<or> srv_running (st_server t))\<rparr>"

abbreviation net :: "server_thread \<Rightarrow> netInterface" where "net t \<equiv> srv_net (st_server t)"

text \<open>The steps of the thread itself; a handler that was picked up before the loop was stopped still runs.\<close>

inductive thread_step :: "server_thread \<Rightarrow> server_thread \<Rightarrow> bool" where
  accept: "st_phase t = Starting \<Longrightarrow>
     thread_step t (t\<lparr>st_server := Server_accept (st_server t), st_phase := Accepted\<rparr>)"
| enter: "st_phase t = Accepted \<Longrightarrow> thread_step t (t\<lparr>st_phase := NI_run (net t)\<rparr>)"
| handled: "st_phase t = In_loop \<Longrightarrow> st_handler t = Some error \<Longrightarrow> stable peer peer' \<Longrightarrow>
     attemptConnection peer peer' error (st_server t) = Some s' \<Longrightarrow>
     thread_step t (t\<lparr>st_server := s', st_handler := None\<rparr>)"
| leave: "st_phase t = In_loop \<Longrightarrow> loop_returns t \<Longrightarrow> thread_step t (t\<lparr>st_phase := Ended\<rparr>)"

text \<open>All steps: those of the thread, of the network library, and of the main thread.\<close>

inductive st_step :: "server_thread \<Rightarrow> server_thread \<Rightarrow> bool" where
  own: "thread_step t t' \<Longrightarrow> st_step t t'"
| accepted: "ni_accepting (net t) \<Longrightarrow> ni_acceptorOpen (net t) \<Longrightarrow> st_handler t = None \<Longrightarrow>
     st_step t (t\<lparr>st_server := (st_server t)\<lparr>srv_net := (net t)
       \<lparr>ni_socket := \<lparr>sock_id = n, sock_open = True\<rparr>, ni_accepting := False\<rparr>\<rparr>, st_handler := Some False\<rparr>)"
| failed: "ni_accepting (net t) \<Longrightarrow> st_handler t = None \<Longrightarrow>
     st_step t (t\<lparr>st_server := (st_server t)\<lparr>srv_net := (net t)\<lparr>ni_accepting := False\<rparr>\<rparr>, st_handler := Some True\<rparr>)"
| sent: "st_step t (t\<lparr>st_server := fst (Server_send wr msg (st_server t))\<rparr>)"
| stopped: "st_step t (Server_stop_thread t)"

section \<open>The invariant\<close>

definition st_inv :: "server_thread \<Rightarrow> bool" where
  "st_inv t \<longleftrightarrow>
     (st_phase t = Starting \<longrightarrow> st_handler t = None \<and> \<not> ni_accepting (net t)) \<and>
     (ni_accepting (net t) \<longrightarrow> st_handler t = None) \<and>
     (if srv_running (st_server t)
      then ni_acceptorOpen (net t) \<and> \<not> st_stopped t \<and> st_phase t \<noteq> Ended \<and>
        (st_phase t \<noteq> Starting \<longrightarrow> ni_accepting (net t) \<or> st_handler t \<noteq> None)
      else \<not> ni_acceptorOpen (net t) \<and> st_stopped t)"

lemma refuse_net:
  "refuse peer s = (r, s') \<Longrightarrow>
     ni_acceptorOpen (srv_net s') = ni_acceptorOpen (srv_net s) \<and> srv_running s' = srv_running s"
  by (auto simp: refuse_def NI_close_def split: outcome.splits)

lemma admit_net:
  "admit peer s = (r, s') \<Longrightarrow>
     ni_acceptorOpen (srv_net s') = ni_acceptorOpen (srv_net s) \<and> srv_running s' = srv_running s"
  by (auto simp: admit_def NI_startConnection_def split: option.splits prod.splits outcome.splits if_splits)

lemma attempt_net:
  "attempt peer peer' s = (r, s') \<Longrightarrow>
     ni_acceptorOpen (srv_net s') = ni_acceptorOpen (srv_net s) \<and> srv_running s' = srv_running s"
  by (auto simp: attempt_def dest: refuse_net admit_net split: outcome.splits if_splits)

lemma attemptConnection_net:
  assumes "attemptConnection peer peer' error s = Some s'"
  shows "ni_acceptorOpen (srv_net s') = ni_acceptorOpen (srv_net s)" "srv_running s' = srv_running s"
    "ni_acceptorOpen (srv_net s) \<Longrightarrow> ni_accepting (srv_net s')"
  using assms attempt_net [of peer peer' s]
  by (auto simp: attemptConnection_def Server_accept_def NI_onAccept_def NI_close_def
      split: if_splits prod.splits outcome.splits exn.splits)

lemma send_net: "srv_net (fst (Server_send wr msg s)) = srv_net s" "srv_running (fst (Server_send wr msg s)) = srv_running s"
  by (simp_all add: Server_send_def case_prod_beta Let_def)

lemma thread_step_inv:
  assumes "thread_step t t'" "st_inv t"
  shows "st_inv t'"
  using assms(1)
proof (cases rule: thread_step.cases)
  case (handled error peer peer' s')
  then show ?thesis using assms(2) attemptConnection_net [OF handled(5)] by (auto simp: st_inv_def split: if_splits)
qed (use assms(2) in \<open>auto simp: st_inv_def Server_accept_def NI_onAccept_def NI_run_def loop_returns_def split: if_splits\<close>)

lemma st_step_inv:
  assumes "st_step t t'" "st_inv t"
  shows "st_inv t'"
  using assms(1)
proof (cases rule: st_step.cases)
  case own
  then show ?thesis using thread_step_inv assms(2) by blast
qed (use assms(2) in \<open>auto simp: st_inv_def send_net Server_stop_thread_def Server_stop_def NI_stop_def NI_close_def split: if_splits\<close>)

definition st_start :: "server_thread \<Rightarrow> bool" where
  "st_start t \<longleftrightarrow> t = Server_run_thread Server_new"

interpretation serving: transition_system st_start st_step .

lemma st_start_inv: "st_start t \<Longrightarrow> st_inv t"
  by (simp add: st_start_def st_inv_def Server_run_thread_def Server_new_def NI_new_def)

lemma st_run_inv:
  assumes "st_step\<^sup>*\<^sup>* (Server_run_thread Server_new) t"
  shows "st_inv t"
  by (rule serving.invariant [OF serving.reach_run [OF assms serving.reach.start]])
     (auto simp: st_start_def intro: st_step_inv st_start_inv [unfolded st_start_def])

section \<open>The server without the thread is an abstraction\<close>

text \<open>There the first accept is made at once.\<close>

definition st_abs :: "server_thread \<Rightarrow> server \<times> bool option" where
  "st_abs t =
     (if st_phase t = Starting \<and> ni_acceptorOpen (net t) then Server_accept (st_server t) else st_server t, st_handler t)"

lemma accept_closed: "\<not> ni_acceptorOpen (srv_net s) \<Longrightarrow> Server_accept s = s"
  by (simp add: Server_accept_def NI_onAccept_def)

lemma send_accept: "fst (Server_send wr msg (Server_accept s)) = Server_accept (fst (Server_send wr msg s))"
  by (simp add: Server_send_def Server_accept_def case_prod_beta Let_def)

text \<open>A stop before the first accept, seen as a stop after it: the accept fails, and is not repeated.\<close>

lemma stop_before_accept:
  assumes "srv_running s" "\<not> ni_accepting (srv_net s)"
  shows "srv_step\<^sup>*\<^sup>* (Server_accept s, None) (Server_stop s, None)"
proof (cases "ni_acceptorOpen (srv_net s)")
  case True
  let ?a = "Server_stop (Server_accept s)"
  have "srv_step (Server_accept s, None) (?a, None)" by (rule srv_step.stopped)
  moreover have "srv_step (?a, None) (?a\<lparr>srv_net := (srv_net ?a)\<lparr>ni_accepting := False\<rparr>\<rparr>, Some True)"
    by (rule srv_step.failed) (use assms True in \<open>simp add: Server_stop_def Server_accept_def NI_onAccept_def NI_stop_def NI_close_def\<close>)
  moreover have "?a\<lparr>srv_net := (srv_net ?a)\<lparr>ni_accepting := False\<rparr>\<rparr> = Server_stop s"
    using assms True by (simp add: Server_stop_def Server_accept_def NI_onAccept_def NI_stop_def NI_close_def)
  moreover have "srv_step (Server_stop s, Some True) (Server_stop s, None)"
    by (rule srv_step.handled [of None None])
       (use assms(1) in \<open>simp_all add: stable_def attemptConnection_def accept_closed Server_stop_def NI_stop_def NI_close_def\<close>)
  ultimately show ?thesis by (metis converse_rtranclp_into_rtranclp rtranclp.rtrancl_refl)
next
  case False
  then show ?thesis using srv_step.stopped by (simp add: accept_closed r_into_rtranclp)
qed

lemma thread_step_refines: "thread_step t t' \<Longrightarrow> srv_step\<^sup>*\<^sup>* (st_abs t) (st_abs t')"
proof (induction rule: thread_step.induct)
  case (handled t error peer peer' s')
  then show ?case using srv_step.handled [of peer peer' error "st_server t" s'] by (simp add: st_abs_def r_into_rtranclp)
qed (auto simp: st_abs_def accept_closed NI_run_def)

lemma st_step_refines:
  assumes "st_step t t'" "st_inv t"
  shows "srv_step\<^sup>*\<^sup>* (st_abs t) (st_abs t')"
  using assms(1)
proof (cases rule: st_step.cases)
  case own
  then show ?thesis by (rule thread_step_refines)
next
  case (accepted n)
  then have "st_phase t \<noteq> Starting" using assms(2) by (auto simp: st_inv_def)
  then show ?thesis using accepted srv_step.accepted [of "st_server t" n] by (simp add: st_abs_def r_into_rtranclp)
next
  case failed
  then have "st_phase t \<noteq> Starting" using assms(2) by (auto simp: st_inv_def)
  then show ?thesis using failed srv_step.failed [of "st_server t"] by (simp add: st_abs_def r_into_rtranclp)
next
  case (sent wr msg)
  then show ?thesis
    using srv_step.sent [of "fst (st_abs t)" "st_handler t" wr msg] by (auto simp: st_abs_def send_net send_accept r_into_rtranclp)
next
  case stopped
  show ?thesis
  proof (cases "st_phase t = Starting \<and> srv_running (st_server t)")
    case True
    then show ?thesis
      using stopped assms(2) stop_before_accept [of "st_server t"]
      by (simp add: st_abs_def st_inv_def Server_stop_thread_def) (simp add: Server_stop_def NI_stop_def NI_close_def)
  next
    case False
    then have "fst (st_abs t) = st_server t" "fst (st_abs t') = Server_stop (st_server t)"
      using stopped assms(2)
      by (auto simp: st_abs_def st_inv_def Server_stop_thread_def Server_stop_def split: if_splits)
    then show ?thesis
      using stopped srv_step.stopped [of "st_server t" "st_handler t"]
      by (simp add: st_abs_def Server_stop_thread_def r_into_rtranclp)
  qed
qed

interpretation st: refined_system "(=) (Server_run Server_new, None)" srv_step st_start "\<lambda>t t'. st_inv t \<and> st_step t t'" st_abs
proof
  show "st_start t \<Longrightarrow> (Server_run Server_new, None) = st_abs t" for t
    by (simp add: st_start_def st_abs_def Server_run_thread_def Server_run_def Server_new_def NI_new_def)
qed (simp add: st_step_refines)

lemma guarded_run:
  assumes "st_step\<^sup>*\<^sup>* (Server_run_thread Server_new) t"
  shows "(\<lambda>t t'. st_inv t \<and> st_step t t')\<^sup>*\<^sup>* (Server_run_thread Server_new) t"
  using assms
proof (induction rule: rtranclp_induct)
  case (step t t')
  then show ?case using st_run_inv [OF step(1)] by (auto intro: rtranclp.rtrancl_into_rtrancl)
qed simp

lemma st_abs_reach:
  assumes "st_step\<^sup>*\<^sup>* (Server_run_thread Server_new) t"
  shows "srv_reach (st_abs t)"
proof -
  have "srv_step\<^sup>*\<^sup>* (Server_run Server_new, None) (st_abs t)"
    using st.run_refines [OF guarded_run [OF assms]] st.init_refines [of "Server_run_thread Server_new"] by (simp add: st_start_def)
  then show ?thesis by (induction rule: rtranclp_induct) (auto intro: srv_reach.intros)
qed

section \<open>Properties of the thread\<close>

text \<open>
  C24: A server that was not stopped never goes deaf: from its first accept on, its thread has not ended, and a connection is being
  waited for or a handler is about to wait for the next one, whatever clients and errors it has had. The server and the handler that waits
  are in a state of the server without the thread.
\<close>

theorem server_keeps_listening:
  assumes "st_step\<^sup>*\<^sup>* (Server_run_thread Server_new) t" "srv_running (st_server t)" "st_phase t \<noteq> Starting"
  shows "st_phase t \<noteq> Ended \<and> ni_acceptorOpen (net t) \<and> (ni_accepting (net t) \<or> st_handler t \<noteq> None) \<and>
    \<not> loop_returns t \<and> srv_reach (st_server t, st_handler t)"
proof -
  have "srv_reach (st_server t, st_handler t)" using st_abs_reach [OF assms(1)] assms(3) by (simp add: st_abs_def)
  then show ?thesis using st_run_inv [OF assms(1)] assms(2, 3) by (auto simp: st_inv_def loop_returns_def)
qed

lemma own_running: "thread_step t t' \<Longrightarrow> srv_running (st_server t') = srv_running (st_server t)"
  by (induction rule: thread_step.induct) (auto simp: Server_accept_def dest: attemptConnection_net(2))

lemma stays_stopped: "st_step t t' \<Longrightarrow> \<not> srv_running (st_server t) \<Longrightarrow> \<not> srv_running (st_server t')"
  by (induction rule: st_step.induct) (auto simp: own_running send_net Server_stop_thread_def Server_stop_def)

text \<open>The steps a stopped thread has left.\<close>

definition steps_left :: "server_thread \<Rightarrow> nat" where
  "steps_left t =
     (case st_phase t of Starting \<Rightarrow> 2 | Accepted \<Rightarrow> 1 | In_loop \<Rightarrow> (if st_handler t = None then 1 else 2) | Ended \<Rightarrow> 0)"

lemma steps_left_decreases:
  assumes "thread_step t t'" "st_inv t" "\<not> srv_running (st_server t)"
  shows "steps_left t' < steps_left t"
  using assms by (cases rule: thread_step.cases) (auto simp: steps_left_def st_inv_def NI_run_def)

lemma thread_steps_bounded:
  assumes "(thread_step ^^ n) t t'" "st_inv t" "\<not> srv_running (st_server t)"
  shows "n \<le> steps_left t"
  using assms
proof (induction n arbitrary: t)
  case (Suc n)
  obtain u where u: "thread_step t u" "(thread_step ^^ n) u t'" using relpowp_Suc_D2 [OF Suc.prems(1)] by blast
  have "n \<le> steps_left u"
    using Suc.IH [OF u(2) thread_step_inv [OF u(1) Suc.prems(2)]] own_running [OF u(1)] Suc.prems(3) by simp
  then show ?case using steps_left_decreases [OF u(1) Suc.prems(2, 3)] by simp
qed simp

lemma stopped_thread_moves:
  assumes "st_inv t" "\<not> srv_running (st_server t)" "st_phase t \<noteq> Ended"
  shows "\<exists>t'. thread_step t t'"
  using assms thread_step.accept [of t] thread_step.enter [of t] thread_step.leave [of t]
  by (cases "st_phase t") (auto simp: st_inv_def loop_returns_def)

text \<open>
  C25: \<open>Server::stop\<close> returns: once the server was stopped its thread makes at most two more steps of its own, wherever it is, even if it
  has not made its first accept, and as long as it has not ended it can make one. So it ends, and the wait for it is over. Nothing starts the server again.
\<close>

theorem server_stop_returns:
  assumes "st_step\<^sup>*\<^sup>* (Server_run_thread Server_new) t0" "st_step\<^sup>*\<^sup>* (Server_stop_thread t0) t"
  shows "\<not> srv_running (st_server t) \<and> (\<forall>n t'. (thread_step ^^ n) t t' \<longrightarrow> n \<le> 2) \<and>
    (st_phase t \<noteq> Ended \<longrightarrow> (\<exists>t'. thread_step t t'))"
proof -
  have inv: "st_inv t"
    by (rule st_run_inv, rule rtranclp_trans [OF rtranclp.rtrancl_into_rtrancl [OF assms(1) st_step.stopped] assms(2)])
  have off: "\<not> srv_running (st_server t)"
    using assms(2)
  proof (induction rule: rtranclp_induct)
    case base
    show ?case by (simp add: Server_stop_thread_def Server_stop_def)
  qed (rule stays_stopped)
  have "steps_left t \<le> 2" by (simp add: steps_left_def split: thread_phase.split)
  then show ?thesis using thread_steps_bounded [OF _ inv off] stopped_thread_moves [OF inv off] off by fastforce
qed

section \<open>Examples\<close>

text \<open>A server that has accepted a connection, whose handler is about to run.\<close>

definition sample_thread :: server_thread where
  "sample_thread =
     \<lparr>st_server = Server_new\<lparr>srv_running := True,
        srv_net := NI_new\<lparr>ni_socket := \<lparr>sock_id = 1, sock_open = True\<rparr>\<rparr>\<rparr>,
      st_handler = Some False, st_phase = In_loop, st_stopped = False\<rparr>"

lemma sample_thread_reached: "st_step\<^sup>*\<^sup>* (Server_run_thread Server_new) sample_thread"
proof -
  let ?t = "Server_run_thread Server_new"
  let ?a = "?t\<lparr>st_server := Server_accept (st_server ?t), st_phase := Accepted\<rparr>"
  let ?l = "?a\<lparr>st_phase := NI_run (net ?a)\<rparr>"
  note new = Server_run_thread_def Server_new_def Server_accept_def NI_onAccept_def NI_new_def NI_run_def
  have "st_step ?t ?a" by (rule st_step.own, rule thread_step.accept) (simp add: Server_run_thread_def)
  moreover have "st_step ?a ?l" by (rule st_step.own, rule thread_step.enter) simp
  moreover have "st_step ?l sample_thread"
    using st_step.accepted [of ?l 1] by (simp add: new sample_thread_def)
  ultimately show ?thesis by (meson rtranclp.rtrancl_into_rtrancl rtranclp.rtrancl_refl)
qed

theorem server_keeps_listening_witness:
  "st_phase sample_thread \<noteq> Ended \<and> ni_acceptorOpen (net sample_thread) \<and> st_handler sample_thread \<noteq> None \<and>
   srv_reach (st_server sample_thread, st_handler sample_thread)"
  using server_keeps_listening [OF sample_thread_reached] by (simp add: sample_thread_def)

theorem server_stop_returns_witness:
  "let t = Server_stop_thread sample_thread
   in \<not> srv_running (st_server t) \<and> (\<forall>n t'. (thread_step ^^ n) t t' \<longrightarrow> n \<le> 2) \<and> (\<exists>t'. thread_step t t')"
proof -
  have "st_phase (Server_stop_thread sample_thread) \<noteq> Ended" by (simp add: Server_stop_thread_def sample_thread_def)
  then show ?thesis
    using server_stop_returns [OF sample_thread_reached rtranclp.rtrancl_refl] unfolding Let_def by blast
qed

end
