(* ===== verification/VFRB_Shutdown.thy ===== *)
theory VFRB_Shutdown
  imports VFRB
begin

text \<open>
  The end of the program: after \<open>serve\<close> has returned, \<open>run\<close> stops the clients and waits for their threads. The theory
  shows that every thread whose client was started can then end, so that the wait is over.
\<close>

section \<open>The identity of a client never changes\<close>

abbreviation same_identity :: "'f client \<Rightarrow> 'f client \<Rightarrow> bool" where
  "same_identity c d \<equiv> cl_class d = cl_class c \<and> cl_endpoint d = cl_endpoint c"

lemma operations_identity [simp]:
  "cl_endpoint (connect c) = cl_endpoint c" "cl_class (connect c) = cl_class c"
  "cl_endpoint (reconnect c) = cl_endpoint c" "cl_class (reconnect c) = cl_class c"
  "cl_endpoint (Client_stop c) = cl_endpoint c" "cl_class (Client_stop c) = cl_class c"
  "cl_endpoint (scheduleStop c) = cl_endpoint c" "cl_class (scheduleStop c) = cl_class c"
  "cl_endpoint (Client_read c) = cl_endpoint c" "cl_class (Client_read c) = cl_class c"
  "cl_endpoint (sendKeepAlive c) = cl_endpoint c" "cl_class (sendKeepAlive c) = cl_class c"
  "cl_endpoint (Client_run c) = cl_endpoint c" "cl_class (Client_run c) = cl_class c"
  "cl_endpoint (loop_ended c) = cl_endpoint c" "cl_class (loop_ended c) = cl_class c"
  by (simp_all add: connect_def reconnect_def timedConnect_def Client_stop_def base_stop_def scheduleStop_def Client_read_eq
      sendKeepAlive_def Client_run_def loop_ended_def)

lemma feed_loop_identity: "same_identity c (feed_loop proc response fs c)"
  by (induction proc response fs c rule: feed_loop.induct) simp_all

lemma dispatch_identity: "same_identity c (dispatch proc cb e r c)"
  using feed_loop_identity [of proc r "cl_feeds c" c]
  by (cases cb)
     (simp_all add: handleConnect_eq handleTimedConnect_def handleRead_def handleLogin_def handleSendKeepAlive_def
        handleBeacon_def handleWatch_def checkDeadline_def split: client_class.split)

lemma complete_identity [simp]:
  "cl_endpoint (complete proc p e r c) = cl_endpoint c" "cl_class (complete proc p e r c) = cl_class c"
proof -
  have "same_identity c (complete proc p e r c)"
    using dispatch_identity [of proc "p_cb p" e r "remove_pending p c"]
      dispatch_identity [of proc "p_cb p" e r "use (\<lambda>k. k\<lparr>co_open := True\<rparr>) (remove_pending p c)"]
    by (cases "p_op p"; cases e) (simp_all add: complete_def remove_pending_def)
  then show "cl_endpoint (complete proc p e r c) = cl_endpoint c" "cl_class (complete proc p e r c) = cl_class c" by simp_all
qed

lemma matches_identity:
  assumes "same_identity c c'" "same_identity d d'"
  shows "matches H c' d' = matches H c d"
  using assms by (simp add: matches_def client_hash_def client_equals_defs base_hash_def split: client_class.split)

section \<open>Threads and the set of clients\<close>

text \<open>
  No login makes the hash of an APRS client that of a client of another class with the same endpoint.
\<close>

definition logins_separate :: "hash_lib \<Rightarrow> 'p clientManager \<Rightarrow> bool" where
  "logins_separate H m \<longleftrightarrow>
     (\<forall>c \<in> set (cm_objects m). \<forall>l. cl_class c = AprscClient l \<longrightarrow>
        hash_combine H (base_hash H c) (hash_value H l) \<noteq> base_hash H c)"

text \<open>Then the clients of running threads are in the set, and each finds itself there.\<close>

definition cm_sound :: "hash_lib \<Rightarrow> 'p clientManager \<Rightarrow> bool" where
  "cm_sound H m \<longleftrightarrow>
     distinct (cm_threads m) \<and> set (cm_threads m) \<subseteq> set (cm_clients m) \<and>
     (\<forall>a \<in> set (cm_clients m). \<forall>b \<in> set (cm_clients m). matches H (cm_objects m ! a) (cm_objects m ! b) \<longrightarrow> a = b)"

lemma matches_sym:
  assumes "matches H c d" "\<And>l. cl_class d = AprscClient l \<Longrightarrow> hash_combine H (base_hash H d) (hash_value H l) \<noteq> base_hash H d"
  shows "matches H d c"
  using assms
  by (auto simp: matches_def client_hash_def client_equals_defs base_hash_def split: client_class.splits)

lemma subscribed_unique:
  assumes "subscribed L H fs m" "logins_separate H m" "matches H (cm_objects m ! a) (cm_objects m ! b)"
    and "a < length (cm_objects m)" "b < length (cm_objects m)"
  shows "a = b"
proof -
  have less: "\<not> matches H (cm_objects m ! j) (cm_objects m ! i)" if "i < j" "j < length (cm_objects m)" for i j
    using assms(1) that by (simp add: subscribed_def)
  have "matches H (cm_objects m ! b) (cm_objects m ! a)"
    by (rule matches_sym [OF assms(3)]) (use assms(2) nth_mem [OF assms(5)] in \<open>simp add: logins_separate_def\<close>)
  then show ?thesis using less assms(3, 4, 5) by (metis linorder_neqE_nat)
qed

lemma cm_sound_start:
  assumes "logins_separate H (ClientManager_run (subscribe_all L H fs ClientManager_new))"
  shows "cm_sound H (ClientManager_run (subscribe_all L H fs ClientManager_new))"
proof -
  define m where "m = subscribe_all L H fs ClientManager_new"
  have sub: "subscribed L H fs m" unfolding m_def by (rule subscribed_all)
  have "cm_threads m = []" using subscribe_all_threads [of L H fs ClientManager_new] by (simp add: m_def ClientManager_new_def)
  moreover have "cm_clients m = [0..<length (cm_objects m)]" using sub by (simp add: subscribed_def)
  moreover have "logins_separate H m" using assms by (simp add: m_def logins_separate_def ClientManager_run_eq)
  ultimately show ?thesis
    unfolding m_def [symmetric] using subscribed_unique [OF sub] by (simp add: cm_sound_def ClientManager_run_eq)
qed

lemma cm_sound_on_client:
  assumes "cm_sound H m" "same_identity (cm_objects m ! a) (g (cm_objects m ! a))"
  shows "cm_sound H (on_client a g m)"
proof (cases "a < length (cm_objects m)")
  case True
  have "same_identity (cm_objects m ! b) (cm_objects (on_client a g m) ! b)" for b
    using assms(2) True by (cases "b = a") (simp_all add: on_client_def)
  then have "matches H (cm_objects (on_client a g m) ! b) (cm_objects (on_client a g m) ! d) =
      matches H (cm_objects m ! b) (cm_objects m ! d)" for b d by (intro matches_identity) simp_all
  then show ?thesis using assms(1) by (simp add: cm_sound_def on_client_def)
qed (use assms in \<open>simp add: on_client_def list_update_beyond\<close>)

lemma cm_sound_pass_time:
  assumes "cm_sound H m" "\<forall>a \<in> set (cm_clients m) \<union> set (cm_threads m). a < length (cm_objects m)"
  shows "cm_sound H (pass_time d m)"
proof -
  have "matches H (elapse d b) (elapse d c) = matches H b c" for b c :: "'a fclient"
    by (intro matches_identity) simp_all
  then show ?thesis using assms by (simp add: cm_sound_def pass_time_def)
qed

lemma set_find_self:
  assumes "cm_sound H m" "a \<in> set (cm_clients m)"
  shows "set_find H (cm_objects m ! a) m = Some a"
proof -
  have self: "matches H (cm_objects m ! a) (cm_objects m ! a)" by (simp add: same_class_matches)
  have "set_find H (cm_objects m ! a) m \<noteq> None"
    using assms(2) self by (auto simp: set_find_def find_None_iff matches_def)
  then obtain b where "set_find H (cm_objects m ! a) m = Some b" by auto
  moreover from this have "b \<in> set (cm_clients m)" "matches H (cm_objects m ! a) (cm_objects m ! b)"
    by (auto simp: set_find_def find_Some_iff matches_def)
  ultimately show ?thesis using assms by (auto simp: cm_sound_def)
qed

lemma thread_end_eq:
  assumes "cm_sound H m" "a \<in> set (cm_threads m)"
  shows "thread_end H a m = m\<lparr>cm_clients := remove1 a (cm_clients m), cm_threads := remove1 a (cm_threads m)\<rparr>"
  using set_find_self [OF assms(1), of a] assms by (auto simp: thread_end_def cm_sound_def)

lemma cm_sound_thread_end:
  assumes "cm_sound H m" "a \<in> set (cm_threads m)" "distinct (cm_clients m)"
  shows "cm_sound H (thread_end H a m)"
  using assms by (auto simp: thread_end_eq cm_sound_def)

lemma cm_sound_stop:
  assumes "cm_sound H m"
  shows "cm_sound H (ClientManager_stop m)"
proof -
  have "cm_sound H (fold (\<lambda>a. on_client a scheduleStop) as m)" for as
    using assms by (induction as arbitrary: m) (simp_all add: cm_sound_on_client)
  then show ?thesis by (simp add: ClientManager_stop_def)
qed

lemma serve_iteration_manager: "serve_iteration utc wr v = Ret v' \<Longrightarrow> v_manager v' = v_manager v"
  by (auto simp: serve_iteration_def serve_body_def ocatch_eq_Ret_conv case_prod_beta Let_def elim!: obind_RetE)

lemma vfrb_step_sound:
  assumes "vfrb_step H v v'" "sys_inv cfg v" "cm_sound H (v_manager v)"
  shows "cm_sound H (v_manager v')"
  using assms(1)
proof (cases rule: vfrb_step.cases)
  case (client_ended a)
  have "cm_sound H (on_client a loop_ended (v_manager v))" using assms(3) by (intro cm_sound_on_client) simp_all
  moreover have "distinct (cm_clients (v_manager v))" using assms(2) by (simp add: sys_inv_def cm_ok_def)
  ultimately show ?thesis using client_ended by (simp add: cm_sound_thread_end) (simp add: on_client_def cm_sound_thread_end)
next
  case (served utc wr)
  then show ?thesis using serve_iteration_manager assms(3) by metis
next
  case shutdown
  then show ?thesis using assms(3) by (simp add: VFRB_shutdown_def cm_sound_stop)
next
  case (time d)
  then show ?thesis using assms(2, 3) by (simp add: cm_sound_pass_time sys_inv_def cm_ok_def)
qed (use assms(3) in \<open>auto intro: cm_sound_on_client\<close>)

lemma run_sound:
  assumes "(vfrb_step H)\<^sup>*\<^sup>* v v'" "sys_inv cfg v" "cm_sound H (v_manager v)"
  shows "cm_sound H (v_manager v') \<and> sys_inv cfg v'"
  using assms by (induction rule: rtranclp_induct) (auto intro: vfrb_step_sound vfrb_step_inv)

section \<open>The threads end\<close>

lemma threads_end:
  assumes "sys_inv cfg v" "cm_sound H (v_manager v)"
    and "\<forall>a \<in> set (cm_threads (v_manager v)). cl_state (obj v a) \<noteq> NONE \<and> co_stopped (cl_connector (obj v a))"
  shows "\<exists>m. (vfrb_step H)\<^sup>*\<^sup>* v (v\<lparr>v_manager := m\<rparr>) \<and> cm_threads m = []"
  using assms
proof (induction "length (cm_threads (v_manager v))" arbitrary: v)
  case 0
  then show ?case by (intro exI [of _ "v_manager v"]) simp
next
  case (Suc n)
  then obtain a as where th: "cm_threads (v_manager v) = a # as" by (cases "cm_threads (v_manager v)") auto
  let ?m = "on_client a loop_ended (v_manager v)"
  let ?v = "v\<lparr>v_manager := thread_end H a ?m\<rparr>"
  have step: "vfrb_step H v ?v" using Suc.prems(3) th by (intro vfrb_step.client_ended) simp_all
  have "cm_sound H ?m" using Suc.prems(2) by (intro cm_sound_on_client) simp_all
  then have m: "thread_end H a ?m = ?m\<lparr>cm_clients := remove1 a (cm_clients ?m), cm_threads := as\<rparr>"
    using thread_end_eq [of H ?m a] th by simp
  have "a \<notin> set as" using Suc.prems(2) th by (simp add: cm_sound_def)
  moreover have "cm_objects (v_manager ?v) = (cm_objects (v_manager v))[a := loop_ended (obj v a)]"
    by (simp add: m) (simp add: on_client_def)
  ultimately have "obj ?v b = obj v b" if "b \<in> set as" for b using that by (metis nth_list_update_neq)
  then have "\<forall>b \<in> set as. cl_state (obj ?v b) \<noteq> NONE \<and> co_stopped (cl_connector (obj ?v b))"
    using Suc.prems(3) th by simp
  moreover have "cm_threads (v_manager ?v) = as" by (simp add: m)
  ultimately obtain k where "(vfrb_step H)\<^sup>*\<^sup>* ?v (?v\<lparr>v_manager := k\<rparr>)" "cm_threads k = []"
    using Suc.hyps(1) [of ?v] Suc.hyps(2) th vfrb_step_inv [OF step Suc.prems(1)] vfrb_step_sound [OF step Suc.prems(1, 2)]
    by auto
  then show ?case using step by (auto intro: converse_rtranclp_into_rtranclp)
qed

lemma stopped_client:
  assumes "cl_inv c" "cl_state c \<noteq> NONE"
  shows "cl_state (scheduleStop c) \<noteq> NONE \<and> co_stopped (cl_connector (scheduleStop c))"
  using assms Client_stop_stops [OF well_phase [OF assms(1)]]
  by (cases "cl_state c") (auto simp: scheduleStop_def cl_inv_def Client_stop_def base_stop_def split: if_splits)

lemma shutdown_stops:
  assumes "cm_ok (v_manager v)" "cm_sound H (v_manager v)" "\<forall>a \<in> set (cm_threads (v_manager v)). cl_state (obj v a) \<noteq> NONE"
  shows "\<forall>a \<in> set (cm_threads (v_manager (VFRB_shutdown v))).
    cl_state (obj (VFRB_shutdown v) a) \<noteq> NONE \<and> co_stopped (cl_connector (obj (VFRB_shutdown v) a))"
proof
  fix a assume a: "a \<in> set (cm_threads (v_manager (VFRB_shutdown v)))"
  let ?m = "v_manager v"
  have ok: "distinct (cm_clients ?m)" "\<forall>a \<in> set (cm_clients ?m). a < length (cm_objects ?m)"
    "\<forall>c \<in> set (cm_objects ?m). cl_inv c" using assms(1) by (auto simp: cm_ok_def intro: cl_reached_inv)
  have "cm_threads (fold (\<lambda>a. on_client a g) as m) = cm_threads m" for as g and m :: "'a clientManager"
    by (induction as arbitrary: m) simp_all
  then have th: "a \<in> set (cm_threads ?m)" using a by (simp add: VFRB_shutdown_def ClientManager_stop_def)
  then have cl: "a \<in> set (cm_clients ?m)" using assms(2) by (auto simp: cm_sound_def)
  have "obj (VFRB_shutdown v) a = scheduleStop (obj v a)"
    using stop_objects [OF ok(1, 2), of a scheduleStop] cl ok(2) by (simp add: VFRB_shutdown_def ClientManager_stop_def)
  moreover have "cl_inv (obj v a)" using ok(2, 3) cl nth_mem by blast
  ultimately show "cl_state (obj (VFRB_shutdown v) a) \<noteq> NONE \<and> co_stopped (cl_connector (obj (VFRB_shutdown v) a))"
    using stopped_client [of "obj v a"] assms(3) th by simp
qed

lemma start_sound:
  assumes "logins_separate H (v_manager (VFRB_start L H (VFRB_new L utc st0 cfg)))"
  shows "cm_sound H (v_manager (VFRB_start L H (VFRB_new L utc st0 cfg)))"
proof -
  obtain fs where m0: "v_manager (VFRB_start L H (VFRB_new L utc st0 cfg)) =
      ClientManager_run (subscribe_all L H fs ClientManager_new)"
    by (simp add: VFRB_start_def VFRB_new_def case_prod_beta Let_def)
  show ?thesis using cm_sound_start [of H L fs] assms by (simp add: m0)
qed



end
