(* ===== verification/VFRB_Timing.thy ===== *)
theory VFRB_Timing
  imports VFRB_Shutdown Client_Timer
begin

text \<open>
  The clients in the running program: every step of the program is, for each client, a move of its own state machine, so what was
  shown of a client alone holds there. The theory carries over how long a client waits before it connects again.
\<close>

section \<open>A step of the program is a move of each client\<close>

lemma on_client_nth:
  "a < length (cm_objects m) \<Longrightarrow> cm_objects (on_client b g m) ! a = (if a = b then g (cm_objects m ! a) else cm_objects m ! a)"
  by (simp add: on_client_def nth_list_update)

lemma thread_end_objects: "cm_objects (thread_end H a m) = cm_objects m"
  by (simp add: thread_end_def split: option.split)

lemma stop_length: "length (cm_objects (ClientManager_stop m)) = length (cm_objects m)"
proof -
  have "length (cm_objects (fold (\<lambda>a. on_client a g) as m)) = length (cm_objects m)" for as g and m :: "'a clientManager"
    by (induction as arbitrary: m) simp_all
  then show ?thesis by (simp add: ClientManager_stop_def)
qed

lemma stepped: "cl_step proc c c' \<Longrightarrow> cl_move c c'"
  by (auto simp: cl_move_def)

lemma client_moves:
  assumes "b < length (cm_objects m)" "cl_move (cm_objects m ! b) (g (cm_objects m ! b))" "a < length (cm_objects m)"
  shows "cl_move (cm_objects m ! a) (cm_objects (on_client b g m) ! a)"
  using assms by (simp add: on_client_nth cl_move_refl)

lemma program_moves_clients:
  assumes "vfrb_step H v v'" "sys_inv cfg v" "a < length (cm_objects (v_manager v))"
  shows "cl_move (obj v a) (obj v' a) \<and> length (cm_objects (v_manager v')) = length (cm_objects (v_manager v))"
proof -
  have ok: "distinct (cm_clients (v_manager v))" "\<forall>b \<in> set (cm_clients (v_manager v)). b < length (cm_objects (v_manager v))"
      "\<forall>b \<in> set (cm_threads (v_manager v)). b < length (cm_objects (v_manager v))"
      "\<forall>c \<in> set (cm_objects (v_manager v)). cl_reached c"
    using assms(2) by (auto simp: sys_inv_def cm_ok_def)
  have move: "cl_move (obj v a) (cm_objects (on_client b g (v_manager v)) ! a)"
    if "b \<in> set (cm_threads (v_manager v))" "cl_step proc (obj v b) (g (obj v b))" for b g proc
    using client_moves [of b "v_manager v" g a] stepped [OF that(2)] assms(3) ok(3) that(1) by blast
  show ?thesis
    using assms(1)
  proof (cases rule: vfrb_step.cases)
    case (client_run b)
    then show ?thesis using move [where g = Client_run, OF client_run(2) cl_step.run] by simp
  next
    case (client_event b p x response)
    then show ?thesis using move [where g = "complete (\<lambda>_ _. True) p x response", OF client_event(2) cl_step.completed [OF client_event(3, 4, 5)]] by simp
  next
    case (client_line b p e response rs s)
    have e: "may_answer (cl_connector (obj v b)) p SUCCESS"
      by (rule read_answer [OF cl_reached_inv client_line(3, 4)]) (use ok(3, 4) client_line(2) in simp)
    then show ?thesis
      using client_line(1, 5) move [where g = "complete (answer rs) p SUCCESS response", OF client_line(2) cl_step.completed [OF client_line(3) _ e]] by simp
  next
    case (client_ended b)
    then show ?thesis using client_ended(1) move [where g = loop_ended, OF client_ended(2) cl_step.ended [OF client_ended(3, 4)]] by (simp add: thread_end_objects)
  next
    case (served utc wr)
    then show ?thesis using serve_iteration_manager cl_move_refl by metis
  next
    case shutdown
    then show ?thesis
      using stop_objects [OF ok(1, 2) assms(3), of scheduleStop] stepped [OF cl_step.stop] cl_move_refl stop_length [of "v_manager v"]
      by (auto simp: VFRB_shutdown_def ClientManager_stop_def)
  next
    case (time d)
    then show ?thesis using stepped [OF cl_step.elapse] assms(3) by (simp add: pass_time_def)
  qed (simp_all add: cl_move_refl)
qed

lemma program_run_moves:
  assumes "(vfrb_step H)\<^sup>*\<^sup>* v v'" "sys_inv cfg v" "a < length (cm_objects (v_manager v))"
  shows "cl_move\<^sup>*\<^sup>* (obj v a) (obj v' a) \<and> sys_inv cfg v' \<and> length (cm_objects (v_manager v')) = length (cm_objects (v_manager v))"
  using assms
proof (induction rule: rtranclp_induct)
  case (step w w')
  then have "sys_inv cfg w'" using vfrb_step_inv by blast
  then show ?case using step program_moves_clients [OF step(2), of cfg a] by (auto intro: rtranclp.rtrancl_into_rtrancl)
qed simp

section \<open>The property\<close>

text \<open>
  C21: After a connection was lost or could not be made, a client of the running program leaves the server alone for two minutes: from the step that
  schedules a reconnect, at least \<open>C_CON_WAIT_TIMEVAL\<close> seconds pass on the clock before it has again a connection attempt under way or is
  running, whatever the threads, the network and the other clients do in between.
\<close>

theorem program_reconnect_waits:
  assumes "(vfrb_step H)\<^sup>*\<^sup>* (VFRB_start L H (VFRB_new L utc st0 cfg)) v" "a < length (cm_objects (v_manager v))"
    and "vfrb_step H v v1" "\<not> scheduled (obj v a)" "scheduled (obj v1 a)"
    and "(vfrb_step H)\<^sup>*\<^sup>* v1 v2" "\<not> co_stopped (cl_connector (obj v2 a))"
    and "HandleConnect \<in> handlers (cl_connector (obj v2 a)) \<or> cl_state (obj v2 a) = RUNNING"
  shows "now (obj v1 a) + seconds C_CON_WAIT_TIMEVAL \<le> now (obj v2 a)"
proof (rule reconnect_waits [OF _ _ assms(4, 5) _ assms(7, 8)])
  have inv: "sys_inv cfg v" by (rule sys_run_inv [OF assms(1)])
  then show "cl_reached (obj v a)" using assms(2) by (simp add: sys_inv_def cm_ok_def)
  have first: "cl_move (obj v a) (obj v1 a)" "length (cm_objects (v_manager v1)) = length (cm_objects (v_manager v))"
    using program_moves_clients [OF assms(3) inv assms(2)] by blast+
  then show "cl_move (obj v a) (obj v1 a)" by blast
  show "cl_move\<^sup>*\<^sup>* (obj v1 a) (obj v2 a)"
    using program_run_moves [OF assms(6) vfrb_step_inv [OF assms(3) inv]] first(2) assms(2) by simp
qed

section \<open>An example\<close>

text \<open>The connection of the client of \<open>ground_run\<close> breaks, and it connects again.\<close>

abbreviation lost_read :: pending where
  "lost_read \<equiv> \<lparr>p_op = Read, p_cb = HandleRead, p_cancelled = False, p_late = False\<rparr>"

abbreviation lost_wait :: pending where
  "lost_wait \<equiv> \<lparr>p_op = Wait, p_cb = HandleTimedConnect, p_cancelled = False, p_late = False\<rparr>"

definition lost_run :: "(string \<times> string) list vfrb" where
  "lost_run = ground_run\<lparr>v_manager := on_client 0 (complete (\<lambda>_ _. True) lost_read FAILURE []) (v_manager ground_run)\<rparr>"

definition late_run :: "(string \<times> string) list vfrb" where
  "late_run = lost_run\<lparr>v_manager := pass_time (seconds 121) (v_manager lost_run)\<rparr>"

definition again_run :: "(string \<times> string) list vfrb" where
  "again_run = late_run\<lparr>v_manager := on_client 0 (complete (\<lambda>_ _. True) lost_wait SUCCESS []) (v_manager late_run)\<rparr>"

lemma ground_run_manager:
  "length (cm_objects (v_manager ground_run)) = 1" "cm_threads (v_manager ground_run) = [0]"
  by (simp_all add: ground_run_def ground_manager)

lemma lost_client:
  "obj lost_run 0 = ground_client\<lparr>cl_state := CONNECTING, cl_connector :=
     \<lparr>co_open = False, co_stopped = False, co_pending = [lost_wait], co_expiry = At (seconds 120), co_now = 0\<rparr>\<rparr>"
  using ground_run_manager(1)
  by (simp add: lost_run_def ground_run_client)
     (simp add: ground_client_def scripted reconnect_def timedConnect_def onTimeout_def expires_at_def C_CON_WAIT_TIMEVAL_def)

lemma late_client:
  "obj late_run 0 = elapse (seconds 121) (obj lost_run 0)" "length (cm_objects (v_manager late_run)) = 1"
  "cm_threads (v_manager late_run) = [0]"
  using ground_run_manager by (simp_all add: late_run_def lost_run_def pass_time_def)

lemma again_client:
  "HandleConnect \<in> handlers (cl_connector (obj again_run 0))" "\<not> co_stopped (cl_connector (obj again_run 0))"
  "now (obj again_run 0) = seconds 121"
  using late_client(2) by (simp_all add: again_run_def late_client(1) lost_client)
     (simp_all add: complete_def handleTimedConnect_def connect_def remove_pending_def onConnect_def Let_def)

theorem program_reconnect_waits_witness:
  "now (obj again_run 0) = seconds 121 \<and> now (obj lost_run 0) + seconds C_CON_WAIT_TIMEVAL \<le> now (obj again_run 0)"
proof
  show "now (obj again_run 0) = seconds 121" by (rule again_client)
  have first: "vfrb_step sample_hash ground_run lost_run"
    unfolding lost_run_def by (rule vfrb_step.client_event) (simp_all add: ground_run_manager ground_run_client may_answer_def)
  have "vfrb_step sample_hash lost_run late_run" unfolding late_run_def by (rule vfrb_step.time)
  moreover have "vfrb_step sample_hash late_run again_run"
    unfolding again_run_def
    by (rule vfrb_step.client_event) (simp_all add: late_client lost_client may_answer_def timerExpired_def)
  ultimately have rest: "(vfrb_step sample_hash)\<^sup>*\<^sup>* lost_run again_run" by (meson converse_rtranclp_into_rtranclp rtranclp.rtrancl_refl)
  show "now (obj lost_run 0) + seconds C_CON_WAIT_TIMEVAL \<le> now (obj again_run 0)"
    by (rule program_reconnect_waits [OF ground_run_reached _ first _ _ rest again_client(2)])
       (use again_client(1) in \<open>simp_all add: ground_run_manager ground_run_client lost_client\<close>)
qed

end
