(* ===== verification/VFRB_Serving.thy ===== *)
theory VFRB_Serving
  imports VFRB Data_ProcessDefined
begin

text \<open>
  From a feed to the served clients: a report that a feed receives and the container accepts is in the text of the next
  round of the serving loop.
\<close>

section \<open>Parsing leaves the age alone\<close>

lemma aprs_age: "m_updateAge (snd (AprsParser_unpack re maxHeight day now s a)) = m_updateAge a"
proof -
  have p: "m_updateAge (snd (AprsParser_parsePosition maxHeight m a)) = m_updateAge a" for m a
    by (auto simp: AprsParser_parsePosition_def setting_def split: outcome.split)
  have t: "m_updateAge (snd (AprsParser_parseTimeStamp day now m a)) = m_updateAge a" for m a
    by (auto simp: AprsParser_parseTimeStamp_def setting_def Let_def split: outcome.split)
  have c: "m_updateAge (snd (AprsParser_parseComment m a)) = m_updateAge a" for m a
    by (auto simp: AprsParser_parseComment_def setting_def andthen_def set_idType_def set_aircraftType_def Let_def
        split: outcome.split)
  have v: "m_updateAge (snd (AprsParser_parseMovement m c a)) = m_updateAge a" for m c a
    by (auto simp: AprsParser_parseMovement_def setting_def Let_def split: outcome.split)
  have conj: "m_updateAge (snd (conj_then r f)) = m_updateAge (snd r)"
    if "\<And>a. m_updateAge (snd (f a)) = m_updateAge a" for r :: "bool outcome \<times> aircraft" and f
    using that by (auto simp: conj_then_def split: prod.split outcome.split bool.split)
  have "m_updateAge (snd (case AprsParser_parseMovement m c a of
      (Ret b, a4) \<Rightarrow> (Ret True, a4\<lparr>ac_fullInfo := b, ac_targetType := FLARM\<rparr>) | (r, a4) \<Rightarrow> (r, a4))) = m_updateAge a" for m c a
    using v [of m c a] by (auto split: prod.split outcome.split)
  then show ?thesis
    unfolding AprsParser_unpack_def by (auto simp: p t c intro!: trans [OF conj] split: option.split)
qed

lemma sbs_age: "m_updateAge (snd (SbsParser_unpack pos0 maxHeight day now s a)) = m_updateAge a"
proof -
  have f: "sbs_parseField day now i x pa = (r, q, b) \<Longrightarrow> m_updateAge b = m_updateAge (snd pa)" for day now i x pa r q b
    by (auto simp: sbs_parseField_def setting_def Let_def split: outcome.splits prod.splits if_splits)
  have "m_updateAge (snd (snd (sbs_loop day now s p i pa))) = m_updateAge (snd pa)" for p i pa
  proof (induction day now s p i pa rule: sbs_loop.induct)
    case (1 day now s p i pa)
    show ?case
      by (subst sbs_loop.simps)
         (use 1 in \<open>auto simp: Let_def split: outcome.split prod.split bool.split dest: f\<close>)
  qed
  from this [of 6 2 "(pos0, a)"] show ?thesis
    by (auto simp: SbsParser_unpack_def set_idType_def set_aircraftType_def split: prod.split sum.split)
qed

text \<open>The object an aircraft feed makes of a line.\<close>

definition aircraft_unpack :: "environment \<Rightarrow> parser_statics \<Rightarrow> 'p feed \<Rightarrow> string \<Rightarrow> uint32 \<Rightarrow> bool outcome \<times> dyn_object" where
  "aircraft_unpack e st f response p =
     (if f_class f = AprscFeed then aprs_unpack e (aprs_maxHeight st) response p
      else sbs_unpack e (sbs_maxHeight st) response p)"

lemma aircraft_unpack_age:
  assumes "aircraft_unpack e st f response p = (r, DAircraft u)"
  shows "m_updateAge u = 0"
proof -
  have "m_updateAge u = m_updateAge (Aircraft_new p)"
    using assms aprs_age [of "e_re e" "aprs_maxHeight st" "e_day e" "e_now e" response "Aircraft_new p"]
      sbs_age [of "e_pos0 e" "sbs_maxHeight st" "e_day e" "e_now e" response "Aircraft_new p"]
    by (auto simp: aircraft_unpack_def aprs_unpack_def sbs_unpack_def map_prod_def case_prod_beta split: if_splits)
  then show ?thesis by (simp add: Aircraft_new_def Object_new_def object.defs aircraft.defs)
qed

section \<open>A report in the container\<close>

lemma spec_update_age:
  assumes "fst (ad_spec_update u m)" "m_updateAge u = 0"
  obtains w where "snd (ad_spec_update u m) (ac_id u) = Some w" "m_updateAge w = 0"
  using assms
  by (auto simp: ad_spec_update_def Aircraft_assign_def Object_assign_def split: option.splits if_splits)

lemma lookup_position:
  assumes "ad_inv d" "ad_lookup d k = Some a"
  obtains xs ys where "ad_container d = xs @ a # ys"
proof -
  obtain i where "ad_index d k = Some i" "a = ad_container d ! i" using assms(2) by (auto simp: ad_lookup_def)
  then have "i < length (ad_container d)" "a = ad_container d ! i"
    using assms(1) index_of_SomeD [of "ids d" k i] by (simp_all add: ad_inv_def)
  then have "ad_container d = take i (ad_container d) @ a # drop (Suc i) (ad_container d)"
    by (simp add: id_take_nth_drop)
  then show thesis by (rule that)
qed

text \<open>An aircraft that was just updated is processed by the next run, and its sentences are part of the text.\<close>

lemma fresh_served:
  assumes "ad_inv d" "ad_lookup d k = Some w" "m_updateAge w = 0" "processAircrafts pos atmPress d = Ret d'"
  obtains a q xs ys where
    "AircraftProcessor_process (tick w) (referTo pos atmPress (AircraftProcessor_new (m_maxDistance (ad_processor d)))) = Ret (a, q)"
    "concat (map m_serialized (filter (\<lambda>a. m_updateAge a < OBJ_OUTDATED) (ad_container d'))) = xs @ m_serialized a @ ys"
proof -
  let ?p = "referTo pos atmPress (AircraftProcessor_new (m_maxDistance (ad_processor d)))"
  have "alive (tick w)" using alive_tick_iff [of w] assms(3) by simp
  then obtain a where a: "processed_alone ?p w = Ret a" "ad_lookup d' k = Some a"
    using processAircrafts_entry [OF assms(1, 4), of k] assms(2) by auto
  have age: "m_updateAge (tick w) = 1" "m_updateAge a = 1"
    using processed_alone_fields(1) [OF a(1)] assms(3) by (simp_all add: tick_def Let_def)
  obtain xs ys where "ad_container d' = xs @ a # ys"
    using lookup_position [OF processAircrafts_inv [OF assms(1, 4)] a(2)] by blast
  moreover obtain q where "AircraftProcessor_process (tick w) ?p = Ret (a, q)"
    using a(1) age(1) by (auto simp: processed_alone_def process_fresh_def omap_eq_Ret_conv)
  moreover have "m_updateAge a < OBJ_OUTDATED" by (simp add: age(2) OBJ_OUTDATED_def)
  ultimately show thesis by (intro that) simp_all
qed

lemma aircraft_feed_stores:
  assumes "f_class f \<in> {AprscFeed, SbsFeed}" "f_priority f = Some p"
    and "aircraft_unpack e st f response p = (Ret True, DAircraft u)" "ad_reach maxDist (s_aircrafts s)"
    and "Feed_process e st f response s = (r, s')"
  shows "r = Ret True \<and> s' = s\<lparr>s_aircrafts := s_aircrafts s'\<rparr> \<and> ad_reach maxDist (s_aircrafts s') \<and>
    ad_lookup (s_aircrafts s') = snd (ad_spec_update u (ad_lookup (s_aircrafts s)))"
proof -
  obtain d' where d': "AircraftData_update (DAircraft u) (s_aircrafts s) =
        Ret (fst (ad_spec_update u (ad_lookup (s_aircrafts s))), d')"
      "ad_lookup d' = snd (ad_spec_update u (ad_lookup (s_aircrafts s)))"
    using update_refines [OF assms(4)] by blast
  moreover have "ad_reach maxDist d'" using assms(4) d'(1) by (rule ad_reach.update)
  ultimately show ?thesis
    using assms(1, 2, 3, 5)
    by (auto simp: Feed_process_def AprscFeed_process_def SbsFeed_process_def process_with_def aircraft_unpack_def aircraft_update_def)
qed

section \<open>A round of serving is defined\<close>

lemma tick_fresh: "m_updateAge (tick a) = 1 \<Longrightarrow> m_updateAge a = 0 \<and> tick a = a\<lparr>m_updateAge := 1\<rparr>"
  by (auto simp: tick_def Object_incr_def Let_def AC_NO_FLARM_THRESHOLD_def OBJ_OUTDATED_def split: if_splits)

lemma processed_alone_defined:
  assumes "m_updateAge a = 0 \<longrightarrow> processable pos atmPress a"
  shows "\<exists>b. processed_alone (referTo pos atmPress p) a = Ret b"
proof (cases "m_updateAge (tick a) = 1")
  case True
  then have "processable pos atmPress (tick a)" using assms tick_fresh [of a] by (simp add: processable_def)
  then show ?thesis
    using processor_defined [of "referTo pos atmPress p" "tick a"] True
    by (auto simp: processed_alone_def process_fresh_def referTo_def)
qed (simp add: processed_alone_def process_fresh_def)

lemma serve_body_defined:
  assumes "ad_inv (s_aircrafts (v_stores v))"
    and "\<forall>k a. ad_lookup (s_aircrafts (v_stores v)) k = Some a \<and> m_updateAge a = 0 \<longrightarrow>
      processable (GpsData_get_position (s_gps (v_stores v))) (get_atmPressure (s_atmosphere (v_stores v))) a"
  shows "\<exists>v'. serve_body utc wr v = Ret v' \<and> v_running v' = v_running v"
proof -
  obtain d' where "processAircrafts (GpsData_get_position (s_gps (v_stores v))) (get_atmPressure (s_atmosphere (v_stores v)))
      (s_aircrafts (v_stores v)) = Ret d'"
    using processAircrafts_total [OF assms(1)] processed_alone_defined assms(2) by metis
  then show ?thesis by (auto simp: serve_body_def case_prod_beta Let_def)
qed

section \<open>The property\<close>

text \<open>
  C3: Serving goes on: in every state of the running program, if the aircrafts that were updated since the last round are near the receiver and have plausible
  altitudes, speeds and pressure, then the round runs to its end: no floating-point conversion is undefined, no exception ends the loop, and the program goes on.
\<close>

theorem serving_goes_on:
  assumes "(vfrb_step H)\<^sup>*\<^sup>* (VFRB_start L H (VFRB_new L utc0 st0 cfg)) v"
    and "\<forall>k a. ad_lookup (s_aircrafts (v_stores v)) k = Some a \<and> m_updateAge a = 0 \<longrightarrow>
      processable (GpsData_get_position (s_gps (v_stores v))) (get_atmPressure (s_atmosphere (v_stores v))) a"
  shows "\<exists>v'. serve_iteration utc wr v = Ret v' \<and> v_running v' = v_running v"
proof -
  have "ad_reach (cfg_maxDistance cfg) (s_aircrafts (v_stores v))"
    using sys_run_inv [OF assms(1)] by (simp add: sys_inv_def stores_reach_def)
  then obtain v' where "serve_body utc wr v = Ret v'" "v_running v' = v_running v"
    using serve_body_defined [OF _ assms(2)] ad_reach_inv by blast
  then show ?thesis by (simp add: serve_iteration_def)
qed


definition overhead_sbs :: string where
  "overhead_sbs = ''MSG,3,0,0,AAAAAA,0,D,20:11:30.772,D,T,,0,,,0,0,,,,,,0''"

definition overhead_cfg :: "(string \<times> string) list configuration" where
  "overhead_cfg =
     \<lparr>cfg_position = GpsPosition_at Position_zero (Fin False 0), cfg_atmPressure = ICAO_STD_A, cfg_maxHeight = 0,
      cfg_maxDistance = 0, cfg_serverPort = 4353, cfg_groundMode = False, cfg_feedNames = [''sbs''],
      cfg_feedProperties = [''sbs'' \<mapsto> [(''host'', ''h''), (''port'', ''1''), (''priority'', ''0'')]]\<rparr>"

definition overhead_feed :: "(string \<times> string) list feed" where
  "overhead_feed = \<lparr>f_class = SbsFeed, f_name = ''sbs'',
     f_properties = [(''host'', ''h''), (''port'', ''1''), (''priority'', ''0'')], f_priority = Some 0\<rparr>"

lemma overhead_feeds:
  "createFeeds sample_lib overhead_cfg (cfg_feedNames overhead_cfg) ([], sample_statics) = ([overhead_feed], sample_statics)"
  by code_simp

abbreviation overhead_start :: "(string \<times> string) list vfrb" where
  "overhead_start \<equiv> VFRB_start sample_lib sample_hash (VFRB_new sample_lib sample_tm sample_statics overhead_cfg)"

definition overhead_client :: "(string \<times> string) list fclient" where
  "overhead_client = (Client_new SbsClient \<lparr>host = ''h'', port = ''1''\<rparr>)\<lparr>cl_feeds := [(0, overhead_feed)]\<rparr>"

abbreviation overhead_script :: "(string \<times> string) list fclient \<Rightarrow> (string \<times> string) list fclient" where
  "overhead_script \<equiv> drive (\<lambda>_ _. True) [(HandleConnect, SUCCESS, []), (HandleConnect, SUCCESS, [])]"

definition overhead_run :: "(string \<times> string) list vfrb" where
  "overhead_run = overhead_start\<lparr>v_manager := on_client 0 (overhead_script \<circ> Client_run) (v_manager overhead_start)\<rparr>"

lemma overhead_manager:
  "v_manager overhead_start = \<lparr>cm_objects = [overhead_client], cm_clients = [0], cm_threads = [0]\<rparr>"
proof -
  have "get_endpoint sample_lib overhead_feed = \<lparr>host = ''h'', port = ''1''\<rparr>" "get_protocol overhead_feed = SBS"
    by code_simp+
  then show ?thesis
    by (simp add: VFRB_start_def VFRB_new_def overhead_feeds ClientManager_run_eq ClientManager_subscribe_def set_find_def
        on_client_def ClientManager_new_def createClientFor_def overhead_client_def Client_new_def Client_subscribe_def)
qed

lemma overhead_run_reached: "(vfrb_step sample_hash)\<^sup>*\<^sup>* overhead_start overhead_run"
proof -
  let ?v = "overhead_start\<lparr>v_manager := on_client 0 Client_run (v_manager overhead_start)\<rparr>"
  have "vfrb_step sample_hash overhead_start ?v" by (rule vfrb_step.client_run) (simp add: overhead_manager)
  moreover have "(vfrb_step sample_hash)\<^sup>*\<^sup>* ?v (?v\<lparr>v_manager := on_client 0 overhead_script (v_manager ?v)\<rparr>)"
    by (rule drive_program) (simp_all add: overhead_manager)
  ultimately show ?thesis by (simp add: overhead_run_def converse_rtranclp_into_rtranclp del: drive.simps)
qed

lemma overhead_run_client:
  "obj overhead_run 0 = overhead_client\<lparr>cl_state := RUNNING, cl_connector :=
     \<lparr>co_open = True, co_stopped = False, co_pending = [\<lparr>p_op = Read, p_cb = HandleRead, p_cancelled = False, p_late = False\<rparr>],
      co_expiry = not_a_date_time, co_now = 0\<rparr>\<rparr>"
  by (simp add: overhead_run_def overhead_manager on_client_def) (simp add: overhead_client_def scripted)

definition overhead_aircraft :: aircraft where
  "overhead_aircraft = (Aircraft_new 0)\<lparr>ac_id := ''AAAAAA'', ac_idType := ID_ICAO, ac_aircraftType := AT_POWERED_AIRCRAFT,
     ac_targetType := TRANSPONDER, ac_position := Position_zero, ac_timeStamp := TimeStamp 72690772 57999\<rparr>"

lemma overhead_line:
  "aircraft_unpack ground_env sample_statics overhead_feed overhead_sbs 0 = (Ret True, DAircraft overhead_aircraft)"
proof -
  have fields: "comma_fields (drop 6 overhead_sbs) =
      [''0'', ''0'', ''AAAAAA'', ''0'', ''D'', ''20:11:30.772'', ''D'', ''T'', [], ''0'', [], [], ''0'', ''0'', [], [], [], [], []]"
    by code_simp
  have "stod ''0'' = Ret (Fin False 0)" "TimeStamp_new 58000 0 ''20:11:30.772'' HH_MM_SS_FFF = Ret (TimeStamp 72690772 57999)"
    "overhead_sbs ! 4 = CHR ''3''" by code_simp+
  moreover obtain r where feet: "FEET_2_M = Fin False r" by (rule FEET_2_M_bound)
  have "d_mul (Fin False 0) FEET_2_M = Fin False 0" unfolding feet by (simp add: sgnd_def fin_round_small)
  moreover have "doubleToInt (Fin False 0) = Ret 0" by code_simp
  moreover have "length overhead_sbs < npos" by (simp add: overhead_sbs_def npos_def)
  ultimately have "SbsParser_unpack Position_zero 0 58000 0 overhead_sbs (Aircraft_new 0) = (Ret True, overhead_aircraft)"
    by (subst sbs_accepts)
       (simp_all add: fields sbs_report_def overhead_aircraft_def Position_zero_def del: d_mul.simps)
  then show ?thesis by (simp add: aircraft_unpack_def overhead_feed_def sbs_unpack_def ground_env_def)
qed

lemma overhead_reference:
  "GpsData_get_position (s_gps (v_stores overhead_run)) = Position_zero"
  "get_atmPressure (s_atmosphere (v_stores overhead_run)) = ICAO_STD_A"
  "s_aircrafts (v_stores overhead_run) = AircraftData_new 0" "v_statics overhead_run = sample_statics" "v_running overhead_run"
proof -
  have cfg: "cfg_atmPressure overhead_cfg = ICAO_STD_A" "cfg_maxDistance overhead_cfg = 0"
    "gps_position (cfg_position overhead_cfg) = Position_zero" by (simp_all add: overhead_cfg_def GpsPosition_at_def)
  have kept: "gps_position (gd_position (GpsData_new utc x ground)) = gps_position x" for utc x ground
    by (simp add: GpsData_new_def gd_process_def case_prod_beta Let_def GpsProcessor_process_def)
  show "GpsData_get_position (s_gps (v_stores overhead_run)) = Position_zero"
    "get_atmPressure (s_atmosphere (v_stores overhead_run)) = ICAO_STD_A"
    "s_aircrafts (v_stores overhead_run) = AircraftData_new 0" "v_statics overhead_run = sample_statics" "v_running overhead_run"
    by (simp_all add: overhead_run_def VFRB_start_def VFRB_new_def overhead_feeds cfg GpsData_get_position_def kept
        get_atmPressure_def Atmosphere_with_def AtmosphereData_new_def)
qed

lemma overhead_processable: "processable Position_zero ICAO_STD_A overhead_aircraft"
proof -
  have "pos_le 10000 ICAO_STD_A" unfolding ICAO_STD_A_def by (rule dlit_bound) (simp_all add: bound_numeral)
  then show ?thesis
    by (simp add: processable_def near_def overhead_aircraft_def Position_zero_def Aircraft_new_def Object_new_def object.defs aircraft.defs)
qed

text \<open>The state in which the report was stored.\<close>

lemma overhead_fed:
  obtains s where "Feed_process ground_env sample_statics overhead_feed overhead_sbs (v_stores overhead_run) = (Ret True, s)"
    "ad_inv (s_aircrafts s)" "ad_lookup (s_aircrafts s) = [''AAAAAA'' \<mapsto> overhead_aircraft]"
    "\<forall>k a. ad_lookup (s_aircrafts s) k = Some a \<and> m_updateAge a = 0 \<longrightarrow>
       processable (GpsData_get_position (s_gps s)) (get_atmPressure (s_atmosphere s)) a"
proof -
  obtain r s where fed: "Feed_process ground_env sample_statics overhead_feed overhead_sbs (v_stores overhead_run) = (r, s)" by fastforce
  have "ad_lookup (AircraftData_new 0) = Map.empty" by (auto simp: ad_lookup_def AircraftData_new_def)
  then have s: "r = Ret True" "s = (v_stores overhead_run)\<lparr>s_aircrafts := s_aircrafts s\<rparr>" "ad_reach 0 (s_aircrafts s)"
    "ad_lookup (s_aircrafts s) = [''AAAAAA'' \<mapsto> overhead_aircraft]"
    using aircraft_feed_stores [OF _ _ overhead_line _ fed, of 0] ad_reach.new [of 0]
    by (simp_all add: overhead_feed_def overhead_reference ad_spec_update_def overhead_aircraft_def)
  have st: "s_gps s = s_gps (v_stores overhead_run)" "s_atmosphere s = s_atmosphere (v_stores overhead_run)" by (subst s(2), simp)+
  have "\<forall>k a. ad_lookup (s_aircrafts s) k = Some a \<and> m_updateAge a = 0 \<longrightarrow>
      processable (GpsData_get_position (s_gps s)) (get_atmPressure (s_atmosphere s)) a"
    unfolding st overhead_reference s(4) using overhead_processable by (simp split: if_splits)
  with fed s ad_reach_inv show thesis by (intro that) auto
qed

theorem serving_goes_on_witness:
  "\<exists>v v'. (vfrb_step sample_hash)\<^sup>*\<^sup>* overhead_start v \<and> ad_lookup (s_aircrafts (v_stores v)) ''AAAAAA'' = Some overhead_aircraft \<and>
     serve_iteration sample_tm (\<lambda>_ _. True) v = Ret v' \<and> v_running v'"
proof -
  let ?p = "\<lparr>p_op = Read, p_cb = HandleRead, p_cancelled = False, p_late = False\<rparr>"
  obtain s where s: "Feed_process ground_env sample_statics overhead_feed overhead_sbs (v_stores overhead_run) = (Ret True, s)"
    "ad_lookup (s_aircrafts s) = [''AAAAAA'' \<mapsto> overhead_aircraft]"
    "\<forall>k a. ad_lookup (s_aircrafts s) k = Some a \<and> m_updateAge a = 0 \<longrightarrow>
       processable (GpsData_get_position (s_gps s)) (get_atmPressure (s_atmosphere s)) a"
    by (rule overhead_fed)
  have feeds: "cl_feeds (obj overhead_run 0) = [(0, overhead_feed)]" by (simp add: overhead_run_client overhead_client_def)
  let ?v = "overhead_run\<lparr>v_stores := s,
      v_manager := on_client 0 (complete (answer [((0, overhead_feed), True)]) ?p SUCCESS overhead_sbs) (v_manager overhead_run)\<rparr>"
  have "vfrb_step sample_hash overhead_run ?v"
  proof (rule vfrb_step.client_line)
    show "process_feeds ground_env (v_statics overhead_run) overhead_sbs (cl_feeds (obj overhead_run 0)) (v_stores overhead_run) =
        Ret ([((0, overhead_feed), True)], s)"
      using s(1) by (simp add: feeds overhead_reference)
  qed (simp_all add: overhead_run_client, simp add: overhead_run_def overhead_manager)
  then have run: "(vfrb_step sample_hash)\<^sup>*\<^sup>* overhead_start ?v" using overhead_run_reached by (rule rtranclp.rtrancl_into_rtrancl [rotated])
  then obtain v' where "serve_iteration sample_tm (\<lambda>_ _. True) ?v = Ret v'" "v_running v'"
    using serving_goes_on [OF run, of sample_tm "\<lambda>_ _. True"] s(3) overhead_reference(5) by auto
  moreover have "ad_lookup (s_aircrafts (v_stores ?v)) ''AAAAAA'' = Some overhead_aircraft" by (simp add: s(2))
  ultimately show ?thesis using run by blast
qed


end
