(* ===== verification/VFRB_Signals.thy ===== *)
theory VFRB_Signals
  imports VFRB
begin

text \<open>
  \<open>include/util/SignalListener.h\<close> and \<open>src/util/SignalListener.cpp\<close>: the listener that waits for the signals to shut down, and its use in \<open>VFRB::run\<close>. What
  Boost.Asio documents of a \<open>signal_set\<close> is written out in \<open>deliver\<close>: a signal completes all waits of the set, and is kept for the next wait if there is none.
\<close>

section \<open>The listener\<close>

datatype signal = SIGINT | SIGTERM | SIGQUIT | Other_signal nat

text \<open>
  \<open>sl_sigSet\<close>, \<open>sl_waits\<close> and \<open>sl_undelivered\<close> are the state of \<open>m_sigSet\<close>, \<open>sl_ready\<close> are the handlers queued on \<open>m_ioService\<close>, \<open>sl_stopped\<close> is
  \<open>m_ioService.stopped()\<close>, and \<open>sl_thread\<close> tells whether \<open>m_thread\<close> is joinable.
\<close>

record 'h signalListener =
  sl_sigSet :: "signal list"
  sl_waits :: "'h list"
  sl_undelivered :: nat
  sl_ready :: "'h list"
  sl_stopped :: bool
  sl_thread :: bool

definition SignalListener_new :: "'h signalListener" where
  "SignalListener_new =
     \<lparr>sl_sigSet = [SIGINT, SIGTERM, SIGQUIT], sl_waits = [], sl_undelivered = 0, sl_ready = [], sl_stopped = False, sl_thread = False\<rparr>"

definition SignalListener_run :: "'h signalListener \<Rightarrow> 'h signalListener" where
  "SignalListener_run l = l\<lparr>sl_thread := True\<rparr>"

definition SignalListener_stop :: "'h signalListener \<Rightarrow> 'h signalListener" where
  "SignalListener_stop l =
     (let l1 = (if \<not> sl_stopped l then l\<lparr>sl_stopped := True\<rparr> else l)
      in if sl_thread l1 then l1\<lparr>sl_thread := False\<rparr> else l1)"

definition addHandler :: "'h \<Rightarrow> 'h signalListener \<Rightarrow> 'h signalListener" where
  "addHandler handler l =
     (if 0 < sl_undelivered l then l\<lparr>sl_undelivered := sl_undelivered l - 1, sl_ready := sl_ready l @ [handler]\<rparr>
      else l\<lparr>sl_waits := sl_waits l @ [handler]\<rparr>)"

definition deliver :: "signal \<Rightarrow> 'h signalListener \<Rightarrow> 'h signalListener" where
  "deliver sig l =
     (if sig \<in> set (sl_sigSet l) then
        (if sl_waits l = [] then l\<lparr>sl_undelivered := Suc (sl_undelivered l)\<rparr>
         else l\<lparr>sl_ready := sl_ready l @ sl_waits l, sl_waits := []\<rparr>)
      else l)"

section \<open>The listener in the program\<close>

text \<open>The handler \<open>VFRB::run\<close> installs.\<close>

definition caught_signal :: "'p vfrb \<Rightarrow> 'p vfrb" where
  "caught_signal v = v\<lparr>v_running := False\<rparr>"

text \<open>\<open>sg_caught\<close> records the signals that arrived, and \<open>sg_calls\<close> counts how often a handler was called.\<close>

record 'p signalled =
  sg_listener :: "('p vfrb \<Rightarrow> 'p vfrb) signalListener"
  sg_program :: "'p vfrb"
  sg_caught :: "signal list"
  sg_calls :: nat

definition sg_start :: "'p ptree_lib \<Rightarrow> hash_lib \<Rightarrow> 'p vfrb \<Rightarrow> 'p signalled" where
  "sg_start L H v =
     \<lparr>sg_listener = SignalListener_run (addHandler caught_signal SignalListener_new), sg_program = VFRB_start L H v,
      sg_caught = [], sg_calls = 0\<rparr>"

text \<open>
  The thread of the listener calls the handlers that are queued, and its \<open>run\<close> returns, which stops the service, when nothing is left to wait for. The program
  itself changes \<open>m_running\<close> no more, see below; \<open>run\<close> stops the listener last.
\<close>

inductive sg_step :: "hash_lib \<Rightarrow> 'p signalled \<Rightarrow> 'p signalled \<Rightarrow> bool" for H where
  arrive: "sg_step H g (g\<lparr>sg_listener := deliver sig (sg_listener g), sg_caught := sg_caught g @ [sig]\<rparr>)"
| call: "sl_thread (sg_listener g) \<Longrightarrow> \<not> sl_stopped (sg_listener g) \<Longrightarrow> sl_ready (sg_listener g) = h # hs \<Longrightarrow>
     sg_step H g (g\<lparr>sg_listener := (sg_listener g)\<lparr>sl_ready := hs\<rparr>, sg_program := h (sg_program g), sg_calls := Suc (sg_calls g)\<rparr>)"
| out_of_work: "sl_thread (sg_listener g) \<Longrightarrow> \<not> sl_stopped (sg_listener g) \<Longrightarrow>
     sl_ready (sg_listener g) = [] \<Longrightarrow> sl_waits (sg_listener g) = [] \<Longrightarrow>
     sg_step H g (g\<lparr>sg_listener := (sg_listener g)\<lparr>sl_stopped := True\<rparr>\<rparr>)"
| program: "vfrb_step H (sg_program g) v \<Longrightarrow> v_running v = v_running (sg_program g) \<Longrightarrow> sg_step H g (g\<lparr>sg_program := v\<rparr>)"
| stopped: "\<not> v_running (sg_program g) \<Longrightarrow> sg_step H g (g\<lparr>sg_listener := SignalListener_stop (sg_listener g)\<rparr>)"

inductive_cases sg_stepE: "sg_step H g x"

section \<open>Serving throws nothing\<close>

lemma process_no_throw: "AircraftProcessor_process a p \<noteq> Throw e"
proof -
  have "i32 x \<noteq> Throw e" "d_to_i32 d \<noteq> Throw e" for x d e
    by (simp add: i32_def) (cases d; simp add: i32_def)
  then have i: "i32 x \<noteq> Throw e" "doubleToInt d \<noteq> Throw e" for x d e by (simp_all add: doubleToInt_def)
  then have v: "rel_vertical p a \<noteq> Throw e" for p a e
    by (auto simp: rel_vertical_def icaoHeight_def obind_eq_Throw_conv)
  have "calculateRelPosition a p \<noteq> Throw e" for a p e
    by (auto simp: calculateRelPosition_def Let_def obind_eq_Throw_conv i v)
  moreover have "appendPFLAU a p \<noteq> Throw e" "appendPFLAA a p \<noteq> Throw e" for a p e
    by (auto simp: appendPFLAU_def appendPFLAA_def pflaa_full_def obind_eq_Throw_conv i)
  ultimately show ?thesis by (auto simp: AircraftProcessor_process_def Let_def obind_eq_Throw_conv)
qed

lemma process_all_no_throw: "process_all as p \<noteq> Throw e"
proof (induction as arbitrary: p)
  case (Cons a as)
  have "process_fresh a p \<noteq> Throw e" by (simp add: process_fresh_def process_no_throw)
  with Cons show ?case by (auto simp: obind_eq_Throw_conv split: prod.splits)
qed simp

lemma serve_iteration_running:
  assumes "sys_inv cfg v" "serve_iteration utc wr v = Ret v'"
  shows "v_running v' = v_running v"
proof -
  have "ad_inv (s_aircrafts (v_stores v))" using assms(1) ad_reach_inv by (auto simp: sys_inv_def stores_reach_def)
  then have "serve_body utc wr v \<noteq> Throw e" for e
    using process_all_no_throw
    by (auto simp: serve_body_def obind_eq_Throw_conv processAircrafts_ref_eq processAircrafts_ref_def omap_def
        case_prod_beta Let_def)
  then have "serve_body utc wr v = Ret v'"
    using assms(2) by (cases "serve_body utc wr v") (auto simp: serve_iteration_def)
  then show ?thesis by (auto simp: serve_body_def case_prod_beta Let_def elim!: obind_RetE)
qed

text \<open>Every step of the program but the signal leaves \<open>m_running\<close> alone, so that no step of it is missing in \<open>sg_step\<close>.\<close>

lemma vfrb_step_running:
  assumes "vfrb_step H v v'" "sys_inv cfg v"
  shows "v_running v' = v_running v \<or> v' = caught_signal v"
  using assms(1)
proof cases
  case (served utc wr)
  then show ?thesis using serve_iteration_running [OF assms(2)] by blast
qed (auto simp: VFRB_shutdown_def caught_signal_def)

section \<open>The invariant\<close>

definition terminators :: "signal set" where
  "terminators = {SIGINT, SIGTERM, SIGQUIT}"

definition sg_inv :: "'p signalled \<Rightarrow> bool" where
  "sg_inv g \<longleftrightarrow>
     (let l = sg_listener g; r = v_running (sg_program g) in
      sl_sigSet l = [SIGINT, SIGTERM, SIGQUIT] \<and>
      (if set (sg_caught g) \<inter> terminators = {}
       then r \<and> sg_calls g = 0 \<and> sl_waits l = [caught_signal] \<and> sl_ready l = [] \<and> sl_thread l \<and> \<not> sl_stopped l
       else sl_waits l = [] \<and>
         (if r then sg_calls g = 0 \<and> sl_ready l = [caught_signal] \<and> sl_thread l \<and> \<not> sl_stopped l
          else sg_calls g = 1 \<and> sl_ready l = [])))"

lemma sg_start_inv: "sg_inv (sg_start L H v)"
  by (simp add: sg_inv_def sg_start_def SignalListener_new_def SignalListener_run_def addHandler_def VFRB_start_def)

lemma sg_step_inv:
  assumes "sg_step H g x" "sg_inv g"
  shows "sg_inv x"
  using assms(1)
proof cases
  case (arrive sig)
  then show ?thesis using assms(2) by (cases sig) (auto simp: sg_inv_def deliver_def terminators_def Let_def split: if_splits)
qed (use assms(2) in \<open>auto simp: sg_inv_def SignalListener_stop_def caught_signal_def Let_def split: if_splits\<close>)

interpretation listening: transition_system "(=) (sg_start L H v0)" "sg_step H"
  for L :: "'p ptree_lib" and H :: hash_lib and v0 :: "'p vfrb" .

lemma sg_run_inv:
  assumes "(sg_step H)\<^sup>*\<^sup>* (sg_start L H v0) g"
  shows "sg_inv g"
  by (rule listening.invariant [OF listening.reach_run [OF assms listening.reach.start]])
     (auto intro: sg_start_inv sg_step_inv)

text \<open>The program with its listener refines the program on which a signal may act at any moment.\<close>

interpretation sg: refined_system "(=) (VFRB_start L H v0)" "vfrb_step H" "(=) (sg_start L H v0)" "\<lambda>g x. sg_inv g \<and> sg_step H g x" sg_program
  for L :: "'p ptree_lib" and H :: hash_lib and v0 :: "'p vfrb"
proof (unfold_locales, goal_cases)
  case (2 g x)
  then have "sg_step H g x" by simp
  then show ?case
  proof cases
    case (call h hs)
    then have "sg_program x = (sg_program g)\<lparr>v_running := False\<rparr>"
      using 2 by (auto simp: sg_inv_def caught_signal_def Let_def split: if_splits)
    then show ?thesis using vfrb_step.signal [of H "sg_program g"] by simp
  qed auto
qed (auto simp: sg_start_def)

lemma sg_run_guarded:
  assumes "(sg_step H)\<^sup>*\<^sup>* g x" "sg_inv g"
  shows "(\<lambda>g x. sg_inv g \<and> sg_step H g x)\<^sup>*\<^sup>* g x \<and> sg_inv x"
  using assms by (induction rule: rtranclp_induct) (auto intro: rtranclp.rtrancl_into_rtrancl sg_step_inv)

section \<open>Properties\<close>



end
