(* ===== verification/Spec2Isabelle.thy ===== *)
theory Spec2Isabelle
  imports Main_Program Nmea Obj_Clock Feed_SbsUndefined Feed_AprsServed Client_Reader Client_Timer Server_Thread VFRB_Timing
    VFRB_Sensors VFRB_Signals
begin

text \<open>
  Verification of the VirtualFlightRadar-Backend (VFR-B), a C++ program that collects reports of
  aircrafts, of its own position, of the wind and of the air pressure from network feeds and serves them,
  once a second, as NMEA sentences to at most three clients.

  \<^bold>\<open>How the program is put together.\<close> \<open>main\<close> reads the arguments and the configuration and creates a
  \<open>VFRB\<close>. That owns four stores (aircrafts, position, atmosphere, wind), the server and the feeds. Each feed
  is subscribed at a client that connects to the feed's endpoint; every client runs in its own thread and
  hands each received line to its feeds; a feed parses the line and updates its store. The serving loop ages
  and processes the aircrafts, collects the texts of the stores and sends them through the server, whose
  accept handler runs in a further thread. A signal ends the loop, then the clients and the server are
  stopped.

  \<^bold>\<open>Theories and sources\<close> (below \<open>src/include\<close> and \<open>src/src\<close>).
  \<^item> \<open>VFRB_Prelude\<close>: outcomes (\<open>Ret\<close>, \<open>Throw\<close> with the exception, \<open>UB\<close> for undefined behaviour), machine
    integers, facts on lists, the locale \<open>transition_system\<close> with its rule for invariants, and the locale
    \<open>refined_system\<close>, a detailed machine whose steps are runs of a coarser one.
  \<^item> \<open>Cpp_Double\<close>, \<open>Cpp_String\<close>: what the program uses of the language's \<open>double\<close> (IEEE binary64, rounding
    to nearest), \<open>std::string\<close>, \<open>std::stoi\<close>, \<open>std::stod\<close>, \<open>std::stoul\<close>, streams and \<open>std::snprintf\<close>.
  \<^item> \<open>Util_Math\<close>, \<open>Util_Utility\<close>, \<open>Util_Logger\<close>: \<open>util/math.hpp\<close>, \<open>util/utility.hpp\<close>, \<open>util/Logger\<close>.
  \<^item> \<open>Obj_TimeStamp\<close>, \<open>Obj_Objects\<close>: \<open>object/*\<close>, with the virtual functions as case distinctions.
    \<open>Obj_Clock\<close>: \<open>object/impl/DateTimeImplBoost\<close>, the clock the time stamps read.
  \<^item> \<open>Data_Processor\<close>: \<open>data/processor/*\<close>. \<open>Data_AircraftData\<close> and \<open>Data_AircraftSpec\<close>:
    \<open>data/AircraftData\<close>. \<open>Data_Stores\<close>: \<open>data/GpsData\<close>, \<open>data/AtmosphereData\<close>, \<open>data/WindData\<close> and the locale
    \<open>data_store\<close>, the contract of \<open>data/Data.hpp\<close>, which all four stores are interpretations of.
    \<open>Data_ProcessDefined\<close>: bounds on the floating-point computation of the aircraft processor.
  \<^item> \<open>Regex\<close>, \<open>Feed_Parsers\<close>, \<open>Feed_ParserSpec\<close>, \<open>Feed_ParserTotal\<close>, \<open>Feed_SbsUndefined\<close>:
    \<open>feed/parser/*\<close>. \<open>Feed_AprsServed\<close>: the APRS parser and the processor together.
  \<^item> \<open>Config\<close>: \<open>config/*\<close>. \<open>Feeds\<close>: \<open>feed/*\<close> and the locale \<open>feeding\<close>, a parser in front of a store, of
    which the five feeds are interpretations.
  \<^item> \<open>Client\<close>, \<open>Client_Machine\<close>: \<open>client/Client\<close>, its derived classes and \<open>client/net\<close>.
    \<open>Client_Timer\<close>: how its timer bounds the waits.
    \<open>Client_Reader\<close>: the read buffer of \<open>client/net/impl/ConnectorImplBoost\<close>, as a refinement of the client.
    \<open>Client_Manager\<close>: \<open>client/ClientFactory\<close>, \<open>client/ClientManager\<close>.
  \<^item> \<open>Server\<close>: \<open>server/*\<close>. \<open>Server_Thread\<close>: the server with its thread, as a refinement of the server.
  \<^item> \<open>VFRB\<close>: \<open>VFRB.cpp\<close>, with its step relation. \<open>VFRB_Serving\<close>, \<open>VFRB_Sensors\<close>: from a received line to the clients.
    \<open>VFRB_Timing\<close>: the clients' machines in the program. \<open>VFRB_Shutdown\<close>: the end of the
    program. \<open>VFRB_Signals\<close>: \<open>util/SignalListener\<close> and the program with it,
    as a refinement of the program. \<open>Main_Program\<close>: \<open>main.cpp\<close>.
  \<^item> \<open>Nmea\<close>: the processors and the parsers together.

  \<^bold>\<open>State and operations.\<close> A class is a record with the members the program reads; a member function is a
  function of the same name on it, with the class in front where names clash (\<open>AircraftData_update\<close>), and a
  constructor ends in \<open>_new\<close>. Functions that can throw or whose behaviour can be undefined return an outcome,
  together with the state where it is kept after an exception. Each operation that holds a mutex is one step;
  the interleavings are the step relations \<open>cl_step\<close> (one client), \<open>rd_step\<close> (a client with its read buffer),
  \<open>srv_step\<close> (the server), \<open>st_step\<close> (the server with its thread), \<open>vfrb_step\<close> (the whole program)
  and \<open>sg_step\<close> (the program with its signal listener).
  Time is a clock that only advances, in steps of its own between the others: the connector reads it when it sets its timer, and a wait on
  the timer can succeed only when the timer has run off.
  The four virtual \<open>handleConnect\<close> functions, \<open>stop\<close>, \<open>read\<close>, \<open>equals\<close> and \<open>process\<close> are
  dispatched on the class of the object.

  \<^bold>\<open>What the lemmas show.\<close>
  \<^item> Aircrafts: the index is exact in every reachable state; the erasing loop equals a plain description; the
    container refines a map from ids to aircrafts; silent aircrafts are forgotten after 120 runs; priorities
    of FLARM targets.
  \<^item> Other stores: when an update is taken, what is signalled in ground mode, and that a wind sentence is
    delivered once.
  \<^item> Objects: reading a time stamp returns or throws one exception; the day a report lacks is recovered
    exactly, unless midnight lies between the two readings of the clock.
  \<^item> Parsers and processors: the parsers return for every sentence (with the condition under which a conversion
    is defined), the acceptance of the SBS parser is characterised, and the printed sentences carry the
    checksum the parsers look for. The computation of the processor is defined for aircrafts in the part of the
    world of the receiver, which covers every accepted APRS report there; an SBS altitude can be out of range.
  \<^item> Configuration and feeds: what is accepted, which values result, which feed is created, when a feed
    asks its client to stop, and that processing a line changes no other store.
  \<^item> Clients: the invariant of the state machine; only a refusing feed makes a client end; a connecting client
    can always reach the running state; a stop is final; the lines handed on are the received bytes; a lost connection is
    not tried again for 120 seconds; a sensor client drops a connection on which nothing was received for five seconds, and the
    deadline hits no other. Manager: the feeds are partitioned among the clients,
    clients are not duplicated, stopping reaches all of them.
  \<^item> Server: slots and counter, admission, sending, and what a stop leaves; its thread never stops listening by itself,
    and ends after a stop.
  \<^item> Program: each component of the running program is in a state its own operations lead to, so the properties
    above hold there, among them the waits of the clients; an accepted report, and an accepted line of a sensor, is in
    the next message to every client; a round of serving ends without
    an exception; a signal, and nothing else, makes the program stop; the shutdown can complete; the exit code.

  \<^bold>\<open>Loops and bounds.\<close> Loops over containers are structural recursions; the erasing loop of
  \<open>processAircrafts\<close> and the scanning loops have a measure. The serving loop is a
  \<open>partial_function\<close> on options, with a theorem that it returns. No definition uses fuel. Widths are kept where
  the code relies on them: counters and priorities are 32-bit words, the port 16, the hash 64, and results
  of 32-bit signed arithmetic outside of the range are \<open>UB\<close>.

  \<^bold>\<open>Parameters.\<close> What is not in the repository is an argument: the regular expression engine (locale
  \<open>regex_engine\<close>, interpreted by a backtracking matcher), the property tree with its INI reader
  (\<open>ptree_lib\<close>), the hash functions (\<open>hash_lib\<close>), the parser of the command line, files (\<open>file_system\<close>), the
  clock, the value of an uninitialised local variable, and the answers of the network library, which are
  nondeterministic. The clock of the timers is taken to be monotonic, as long as nobody sets the system's time back.

  \<^bold>\<open>Not modelled.\<close> \<open>defines.h\<close> are macros for constructors and getters, for which the records' selectors
  stand. Left out inside modelled parts: the log messages of most functions (among them \<open>Configuration::dumpInfo\<close>),
  the durations of the sleeps, the preallocation of the containers, and constants that no code
  refers to (six of the factors of \<open>math.hpp\<close>).
\<close>

end
